theory Spec2Isabelle
  imports Main "HOL-Library.Char_ord" "HOL-Library.List_Lexorder" "HOL-Library.Sublist"
begin

section \<open>The reactive handlers of \<^verbatim>\<open>reactive/lets_encrypt.py\<close>\<close>

text \<open>
  The handlers of the layer are effectful Python: they read and change the unit's flags,
  its workload status, the crontab, the file system and the run state of a web service,
  and they call external programs. The embedding passes an explicit \<open>world\<close> record
  through every function and returns it updated. A Python function that may raise returns
  a sum, \<open>Inl\<close> carrying the exception; the world is returned with it, because
  effects that happened before a raise are not undone.

  Every externally visible effect is also appended to the \<open>trace\<close> of the world, in
  program order, so that statements such as "no client invocation happened" or "the flag is
  cleared first" are statements about that list.
\<close>

subsection \<open>Data\<close>

datatype exn =
    KeyError string
  | CalledProcessError string
  | OSError string
  | UnboundLocalError string

text \<open>
  The three ways a \<^verbatim>\<open>subprocess.check_output\<close> call can end: exit status 0 with the
  captured output, a non-zero exit status with the captured output, or no exit status at
  all because the program could not be started.
\<close>

datatype proc_result =
    Exited0 string
  | ExitedNonZero string
  | NotStarted string

datatype event =
    Log string
  | Print string
  | StatusSet string string
  | OpenPort nat
  | SetState string
  | RemoveState string
  | Run "string list" bool proc_result
  | ServiceStop string
  | ServiceStart string
  | AptQueueInstall "string list"
  | AptInstallQueued
  | CronWrite
  | CopyFile string string

text \<open>
  A certificate request is a Python dict read with the keys \<^verbatim>\<open>'fqdn'\<close> (a list of
  names) and \<^verbatim>\<open>'contact-email'\<close> (a string). \<open>None\<close> is an absent key.
\<close>

record cert_request =
  fqdn :: "string list option"
  contact_email :: "string option"

record cron_job =
  command :: string
  comment :: string
  schedule :: string
  enabled :: bool

record world =
  flags :: "string set"
  status :: "(string \<times> string) option"
  ports :: "nat set"
  series :: string
  apt_queue :: "string list"
  apt_installed :: "string set"
  config :: "string \<rightharpoonup> string"
  prev_config :: "(string \<rightharpoonup> string) option"
  kv_requests :: "cert_request list option"
  service_name :: "string option"
  running :: "string set"
  dirs :: "string set"
  files :: "string set"
  crontab :: "cron_job list"
  environ :: "string \<rightharpoonup> string"
  trace :: "event list"

text \<open>
  What the code cannot decide is a parameter: \<open>run\<close> answers for every external program
  (given the argument vector, whether standard error is merged into the captured output,
  and the world at the moment of the call) with the way the call ends and the directories
  the program created; \<open>randint\<close> is the value \<^verbatim>\<open>random.randint(1, 59)\<close> returns.
  An external program is taken not to remove directories and not to start or stop
  services.
\<close>

record env =
  run :: "string list \<Rightarrow> bool \<Rightarrow> world \<Rightarrow> proc_result \<times> string set"
  randint :: "world \<Rightarrow> nat"

subsection \<open>Python strings\<close>

text \<open>Truth value of an optional string: \<^verbatim>\<open>None\<close> and \<^verbatim>\<open>''\<close> are false.\<close>

fun truthy :: "string option \<Rightarrow> bool" where
  "truthy None = False"
| "truthy (Some s) = (s \<noteq> [])"

text \<open>\<^verbatim>\<open>'%s' % x\<close> and \<^verbatim>\<open>'{}'.format(x)\<close> of an optional string.\<close>

fun fmt :: "string option \<Rightarrow> string" where
  "fmt None = ''None''"
| "fmt (Some s) = s"

text \<open>ASCII white space, as \<^verbatim>\<open>str.split()\<close> and \<^verbatim>\<open>str.strip()\<close> see it.\<close>

definition is_space :: "char \<Rightarrow> bool" where
  "is_space c = (let n = (of_char c :: nat) in (9 \<le> n \<and> n \<le> 13) \<or> (28 \<le> n \<and> n \<le> 32))"

fun split_words :: "string \<Rightarrow> string \<Rightarrow> string list" where
  "split_words cur [] = (if cur = [] then [] else [cur])"
| "split_words cur (c # cs) =
     (if is_space c
      then (if cur = [] then split_words [] cs else cur # split_words [] cs)
      else split_words (cur @ [c]) cs)"

definition split_ws :: "string \<Rightarrow> string list" where
  "split_ws s = split_words [] s"

definition strip :: "string \<Rightarrow> string" where
  "strip s = rev (dropWhile is_space (rev (dropWhile is_space s)))"

text \<open>\<^verbatim>\<open>needle in haystack\<close> on strings.\<close>

fun str_contains :: "string \<Rightarrow> string \<Rightarrow> bool" where
  "str_contains needle [] = (needle = [])"
| "str_contains needle (c # cs) =
     (take (length needle) (c # cs) = needle \<or> str_contains needle cs)"

definition digit_char :: "nat \<Rightarrow> char" where
  "digit_char d = char_of (48 + d)"

function show_nat :: "nat \<Rightarrow> string" where
  "show_nat n = (if n < 10 then [digit_char n] else show_nat (n div 10) @ [digit_char (n mod 10)])"
  by pat_completeness auto
termination
  by (relation "measure (\<lambda>n. n)") auto

subsection \<open>The collaborators: hook tools, services, subprocesses\<close>

definition emit :: "event \<Rightarrow> world \<Rightarrow> world" where
  "emit e w = w\<lparr>trace := trace w @ [e]\<rparr>"

definition log :: "string \<Rightarrow> world \<Rightarrow> world" where
  "log msg w = emit (Log msg) w"

definition print :: "string \<Rightarrow> world \<Rightarrow> world" where
  "print msg w = emit (Print msg) w"

definition status_set :: "string \<Rightarrow> string \<Rightarrow> world \<Rightarrow> world" where
  "status_set s msg w = emit (StatusSet s msg) (w\<lparr>status := Some (s, msg)\<rparr>)"

definition open_port :: "nat \<Rightarrow> world \<Rightarrow> world" where
  "open_port p w = emit (OpenPort p) (w\<lparr>ports := insert p (ports w)\<rparr>)"

definition set_state :: "string \<Rightarrow> world \<Rightarrow> world" where
  "set_state f w = emit (SetState f) (w\<lparr>flags := insert f (flags w)\<rparr>)"

definition remove_state :: "string \<Rightarrow> world \<Rightarrow> world" where
  "remove_state f w = emit (RemoveState f) (w\<lparr>flags := flags w - {f}\<rparr>)"

definition service_running :: "string \<Rightarrow> world \<Rightarrow> bool" where
  "service_running n w = (n \<in> running w)"

definition service_stop :: "string \<Rightarrow> world \<Rightarrow> world" where
  "service_stop n w = emit (ServiceStop n) (w\<lparr>running := running w - {n}\<rparr>)"

definition service_start :: "string \<Rightarrow> world \<Rightarrow> world" where
  "service_start n w = emit (ServiceStart n) (w\<lparr>running := insert n (running w)\<rparr>)"

definition isdir :: "string \<Rightarrow> world \<Rightarrow> bool" where
  "isdir p w = (p \<in> dirs w)"

text \<open>
  \<^verbatim>\<open>check_output(argv, ...)\<close>: the captured output on exit status 0,
  \<^verbatim>\<open>CalledProcessError\<close> carrying the output on any other exit status, and an
  \<^verbatim>\<open>OSError\<close> when the program cannot be started. What the program did persists in
  all three cases.
\<close>

definition check_output :: "env \<Rightarrow> string list \<Rightarrow> bool \<Rightarrow> world \<Rightarrow> (exn + string) \<times> world" where
  "check_output e argv merge_stderr w =
     (let (res, created) = run e argv merge_stderr w;
          w' = emit (Run argv merge_stderr res) (w\<lparr>dirs := dirs w \<union> created\<rparr>)
      in case res of
           Exited0 out \<Rightarrow> (Inr out, w')
         | ExitedNonZero out \<Rightarrow> (Inl (CalledProcessError out), w')
         | NotStarted msg \<Rightarrow> (Inl (OSError msg), w'))"

text \<open>
  The configuration object of charmhelpers: \<^verbatim>\<open>previous(key)\<close> is the value of the
  key in the configuration saved by the previous hook (\<^verbatim>\<open>None\<close> when nothing was
  saved), and \<^verbatim>\<open>changed(key)\<close> holds when nothing was saved or the previous value
  differs from the current one.
\<close>

definition config_get :: "world \<Rightarrow> string \<Rightarrow> string option" where
  "config_get w k = config w k"

definition config_previous :: "world \<Rightarrow> string \<Rightarrow> string option" where
  "config_previous w k = (case prev_config w of None \<Rightarrow> None | Some p \<Rightarrow> p k)"

definition config_changed_key :: "world \<Rightarrow> string \<Rightarrow> bool" where
  "config_changed_key w k =
     (case prev_config w of None \<Rightarrow> True | Some p \<Rightarrow> config_previous w k \<noteq> config_get w k)"

text \<open>The apt layer: queued packages are installed together, each setting its flag.\<close>

definition apt_queue_install :: "string list \<Rightarrow> world \<Rightarrow> world" where
  "apt_queue_install pkgs w = emit (AptQueueInstall pkgs) (w\<lparr>apt_queue := apt_queue w @ pkgs\<rparr>)"

definition apt_install_queued :: "world \<Rightarrow> world" where
  "apt_install_queued w =
     emit AptInstallQueued
       (w\<lparr>apt_installed := apt_installed w \<union> set (apt_queue w),
          flags := flags w \<union> (\<lambda>p. ''apt.installed.'' @ p) ` set (apt_queue w),
          apt_queue := []\<rparr>)"

definition copyfile :: "string \<Rightarrow> string \<Rightarrow> world \<Rightarrow> (exn + unit) \<times> world" where
  "copyfile src dst w =
     (if src \<in> files w
      then (Inr (), emit (CopyFile src dst) (w\<lparr>files := insert dst (files w)\<rparr>))
      else (Inl (OSError src), w))"

definition charm_dir :: "world \<Rightarrow> string option" where
  "charm_dir w =
     (case environ w ''JUJU_CHARM_DIR'' of Some d \<Rightarrow> Some d | None \<Rightarrow> environ w ''CHARM_DIR'')"

subsection \<open>Installation (lines 41-56)\<close>

definition check_version_and_install :: "world \<Rightarrow> world" where
  "check_version_and_install w =
     (if \<not> series w \<ge> ''xenial''
      then status_set ''blocked'' ''Unsupported series < Xenial''
             (log (''letsencrypt not supported on series >= '' @ series w) w)
      else open_port 443 (open_port 80
             (apt_install_queued (apt_queue_install [''letsencrypt''] w))))"

subsection \<open>Configuration change (lines 59-64)\<close>

definition config_changed :: "world \<Rightarrow> world" where
  "config_changed w =
     (if (config_changed_key w ''fqdn'' \<and> truthy (config_previous w ''fqdn''))
         \<or> truthy (config_get w ''fqdn'')
      then remove_state ''lets-encrypt.registered'' w
      else w)"

subsection \<open>Stopping and starting the web service (lines 152-164)\<close>

definition stop_running_web_service :: "world \<Rightarrow> bool \<times> world" where
  "stop_running_web_service w =
     (case service_name w of
        None \<Rightarrow> (False, w)
      | Some n \<Rightarrow>
          if n \<noteq> [] \<and> service_running n w
          then (True, service_stop n (log (''stopping running service: '' @ n) w))
          else (False, w))"

definition start_web_service :: "world \<Rightarrow> world" where
  "start_web_service w =
     (case service_name w of
        None \<Rightarrow> w
      | Some n \<Rightarrow>
          if n \<noteq> [] then service_start n (log (''starting service: '' @ n) w) else w)"

subsection \<open>The renewal job (lines 167-188)\<close>

abbreviation job_comment :: string where
  "job_comment \<equiv> ''Renew Let's Encrypt [managed by Juju]''"

definition configure_periodic_renew :: "env \<Rightarrow> world \<Rightarrow> (exn + unit) \<times> world" where
  \<open>configure_periodic_renew e w =
     (case check_output e [''which'', ''charms.reactive''] True w of
        (Inl x, w1) \<Rightarrow> (Inl x, w1)
      | (Inr out, w1) \<Rightarrow>
          (case environ w1 ''CHARM_DIR'' of
             None \<Rightarrow> (Inl (KeyError ''CHARM_DIR''), w1)
           | Some d \<Rightarrow>
               (let charms_reactive = strip out;
                    cmd = ''export CHARM_DIR="'' @ d @ ''"; '' @ charms_reactive
                          @ '' set_flag lets-encrypt.renew.requested '';
                    jobRenew = \<lparr>command = cmd, comment = job_comment,
                                schedule = show_nat (randint e w1) @ '' 6,18 * * *'',
                                enabled = True\<rparr>
                in (Inr (), emit CronWrite (w1\<lparr>crontab := crontab w1 @ [jobRenew]\<rparr>)))))\<close>

definition unconfigure_periodic_renew :: "world \<Rightarrow> world" where
  "unconfigure_periodic_renew w =
     emit CronWrite (w\<lparr>crontab := filter (\<lambda>job. comment job \<noteq> job_comment) (crontab w)\<rparr>)"

definition create_dhparam :: "world \<Rightarrow> (exn + unit) \<times> world" where
  "create_dhparam w =
     copyfile (fmt (charm_dir w) @ ''/files/dhparam.pem'') ''/etc/letsencrypt/dhparam.pem'' w"

definition opened_ports :: "env \<Rightarrow> world \<Rightarrow> (exn + string list) \<times> world" where
  "opened_ports e w =
     (case check_output e [''opened-ports''] False w of
        (Inl x, w1) \<Rightarrow> (Inl x, w1)
      | (Inr out, w1) \<Rightarrow> (Inr (split_ws out), w1))"

subsection \<open>Issuance (lines 202-242)\<close>

definition live_path :: "string \<Rightarrow> string" where
  "live_path f = ''/etc/letsencrypt/live/'' @ f"

definition mail_args :: "string \<Rightarrow> string list" where
  "mail_args email =
     (if email \<noteq> [] then [''--email'', email] else [''--register-unsafely-without-email''])"

definition le_cmd :: "string list \<Rightarrow> string list \<Rightarrow> string list" where
  "le_cmd fqdns margs =
     [''letsencrypt'', ''certonly'', ''--standalone'', ''--agree-tos'', ''--non-interactive'']
     @ concat (map (\<lambda>f. [''-d'', f]) fqdns) @ margs"

text \<open>
  The loop variable \<^verbatim>\<open>fqdn\<close> of lines 207 and 223 is read again at line 231, after
  both loops. It holds the last name of the request, or, when the request has no name,
  whatever an earlier request left in it; \<open>None\<close> is the unbound variable.
\<close>

definition bind_last :: "string option \<Rightarrow> string list \<Rightarrow> string option" where
  "bind_last v fqdns = (if fqdns = [] then v else Some (last fqdns))"

datatype loop_ctl = Next | ReturnFalse

text \<open>The \<^verbatim>\<open>try\<close> block, lines 219-231.\<close>

definition issue_try :: "env \<Rightarrow> string option \<Rightarrow> string list \<Rightarrow> string list \<Rightarrow> world \<Rightarrow> (exn + loop_ctl) \<times> world" where
  "issue_try e v fqdns margs w =
     (case check_output e (le_cmd fqdns margs) True w of
        (Inl x, w1) \<Rightarrow> (Inl x, w1)
      | (Inr out, w1) \<Rightarrow>
          (case v of
             None \<Rightarrow> (Inl (UnboundLocalError ''fqdn''), print out w1)
           | Some f \<Rightarrow> (Inr Next, status_set ''active'' (''registered '' @ f) (print out w1))))"

text \<open>The \<^verbatim>\<open>except CalledProcessError\<close> clause, lines 233-238.\<close>

definition issue_except :: "(exn + loop_ctl) \<times> world \<Rightarrow> (exn + loop_ctl) \<times> world" where
  "issue_except rw =
     (case rw of
        (Inl (CalledProcessError out), w) \<Rightarrow>
          (Inr ReturnFalse,
           print out (status_set ''blocked''
             (''letsencrypt registration failed: '' @ [CHR 0x0A] @ out) w))
      | _ \<Rightarrow> rw)"

text \<open>
  One request that is not skipped, lines 211-241: stop the service, build the arguments,
  run the client, and restart the service in the \<^verbatim>\<open>finally\<close> clause.
\<close>

definition issue_request :: "env \<Rightarrow> string option \<Rightarrow> string list \<Rightarrow> cert_request \<Rightarrow> world \<Rightarrow> (exn + loop_ctl) \<times> world" where
  "issue_request e v fqdns r w =
     (let (needs_start, w1) = stop_running_web_service w
      in case contact_email r of
           None \<Rightarrow> (Inl (KeyError ''contact-email''), w1)
         | Some email \<Rightarrow>
             (let (res, w2) = issue_except (issue_try e v fqdns (mail_args email) w1)
              in (res, if needs_start then start_web_service w2 else w2)))"

fun create_certificates_loop :: "env \<Rightarrow> string option \<Rightarrow> cert_request list \<Rightarrow> world \<Rightarrow> (exn + bool) \<times> world" where
  "create_certificates_loop e v [] w = (Inr True, w)"
| "create_certificates_loop e v (r # rs) w =
     (case fqdn r of
        None \<Rightarrow> (Inl (KeyError ''fqdn''), w)
      | Some fqdns \<Rightarrow>
          if list_ex (\<lambda>p. isdir p w) (map live_path fqdns)
          then create_certificates_loop e (bind_last v fqdns) rs w
          else (case issue_request e (bind_last v fqdns) fqdns r w of
                  (Inl x, w') \<Rightarrow> (Inl x, w')
                | (Inr ReturnFalse, w') \<Rightarrow> (Inr False, w')
                | (Inr Next, w') \<Rightarrow> create_certificates_loop e (bind_last v fqdns) rs w'))"

definition create_certificates :: "env \<Rightarrow> cert_request list \<Rightarrow> world \<Rightarrow> (exn + bool) \<times> world" where
  "create_certificates e requests w = create_certificates_loop e None requests w"

subsection \<open>Registration (lines 67-96)\<close>

text \<open>
  The list of requests the handler works on: the stored ones, read from the unit's
  key-value store (a fresh list on every read), followed by the one made from the
  configuration when \<^verbatim>\<open>fqdn\<close> is set.
\<close>

definition gather_requests :: "world \<Rightarrow> cert_request list" where
  "gather_requests w =
     (let requests = (case kv_requests w of None \<Rightarrow> [] | Some rs \<Rightarrow> rs)
      in case config_get w ''fqdn'' of
           None \<Rightarrow> requests
         | Some f \<Rightarrow>
             if f \<noteq> []
             then requests @ [\<lparr>fqdn = Some [f],
                               contact_email = Some (case config_get w ''contact-email'' of
                                                       None \<Rightarrow> [] | Some m \<Rightarrow> m)\<rparr>]
             else requests)"

definition register_server :: "env \<Rightarrow> world \<Rightarrow> (exn + unit) \<times> world" where
  "register_server e w =
     (if (case kv_requests w of None \<Rightarrow> [] | Some rs \<Rightarrow> rs) = []
         \<and> \<not> truthy (config_get w ''fqdn'')
      then (Inr (), w)
      else
        (case opened_ports e w of
           (Inl x, w1) \<Rightarrow> (Inl x, w1)
         | (Inr ps, w1) \<Rightarrow>
             if \<not> (''80/tcp'' \<in> set ps \<or> ''443/tcp'' \<in> set ps)
             then (Inr (), status_set ''waiting''
                             ''Waiting for ports to open (will happen in next hook)'' w1)
             else
               (case create_certificates e (gather_requests w) w1 of
                  (Inl x, w2) \<Rightarrow> (Inl x, w2)
                | (Inr False, w2) \<Rightarrow> (Inr (), w2)
                | (Inr True, w2) \<Rightarrow>
                    (case configure_periodic_renew e (unconfigure_periodic_renew w2) of
                       (Inl x, w3) \<Rightarrow> (Inl x, w3)
                     | (Inr _, w3) \<Rightarrow>
                         (case create_dhparam w3 of
                            (Inl x, w4) \<Rightarrow> (Inl x, w4)
                          | (Inr _, w4) \<Rightarrow>
                              (Inr (), set_state ''lets-encrypt.registered'' w4))))))"

text \<open>The decorators of \<^verbatim>\<open>register_server\<close>, lines 67-73.\<close>

definition register_server_enabled :: "world \<Rightarrow> bool" where
  "register_server_enabled w =
     (''apt.installed.letsencrypt'' \<in> flags w
      \<and> (''lets-encrypt.certificate-requested'' \<in> flags w \<or> ''config.set.fqdn'' \<in> flags w)
      \<and> ''lets-encrypt.registered'' \<notin> flags w
      \<and> ''lets-encrypt.disable'' \<notin> flags w)"

subsection \<open>Renewal (lines 100-149)\<close>

abbreviation renew_argv :: "string list" where
  "renew_argv \<equiv> [''letsencrypt'', ''renew'', ''--agree-tos'']"

definition no_renew_needed :: "env \<Rightarrow> world \<Rightarrow> (exn + bool) \<times> world" where
  "no_renew_needed e w =
     (case check_output e renew_argv False w of
        (Inr out, w1) \<Rightarrow> (Inr (str_contains ''No renewals were attempted.'' out), w1)
      | (Inl (CalledProcessError out), w1) \<Rightarrow>
          (Inr (str_contains ''No renewals were attempted.'' out), w1)
      | (Inl x, w1) \<Rightarrow> (Inl x, w1))"

text \<open>The \<^verbatim>\<open>try\<close> block and the \<^verbatim>\<open>except\<close> clause of \<^verbatim>\<open>renew_cert\<close>, lines 122-134.\<close>

definition renew_try :: "env \<Rightarrow> string option \<Rightarrow> world \<Rightarrow> (exn + unit) \<times> world" where
  "renew_try e f w =
     (case check_output e renew_argv True w of
        (Inr out, w1) \<Rightarrow>
          (Inr (), set_state ''lets-encrypt.renewed''
                     (status_set ''active'' (''registered '' @ fmt f) (print out w1)))
      | (Inl (CalledProcessError out), w1) \<Rightarrow>
          (Inr (), print out (status_set ''blocked''
                     (''letsencrypt renewal failed: '' @ [CHR 0x0A] @ out) w1))
      | (Inl x, w1) \<Rightarrow> (Inl x, w1))"

text \<open>
  The renewal window, lines 116-137: what \<^verbatim>\<open>renew_cert\<close> does once the probe has said
  that a renewal is due.
\<close>

definition renew_window :: "env \<Rightarrow> world \<Rightarrow> (exn + unit) \<times> world" where
  "renew_window e w =
     (let w0 = print ''Renewing certificate...'' w;
          f = config_get w0 ''fqdn'';
          (needs_start, w1) = stop_running_web_service w0;
          w2 = open_port 443 (open_port 80 w1);
          (res, w3) = renew_try e f w2
      in (res, if needs_start then start_web_service w3 else w3))"

definition renew_cert :: "env \<Rightarrow> world \<Rightarrow> (exn + unit) \<times> world" where
  "renew_cert e w =
     (case no_renew_needed e (remove_state ''lets-encrypt.renew.requested'' w) of
        (Inl x, w1) \<Rightarrow> (Inl x, w1)
      | (Inr True, w1) \<Rightarrow> (Inr (), w1)
      | (Inr False, w1) \<Rightarrow> renew_window e w1)"

text \<open>The decorators of \<^verbatim>\<open>renew_cert\<close>, lines 100-110.\<close>

definition renew_cert_enabled :: "world \<Rightarrow> bool" where
  "renew_cert_enabled w =
     (''apt.installed.letsencrypt'' \<in> flags w
      \<and> ''lets-encrypt.registered'' \<in> flags w
      \<and> ''lets-encrypt.renew.requested'' \<in> flags w
      \<and> ''lets-encrypt.disable'' \<notin> flags w
      \<and> ''lets-encrypt.renew.disable'' \<notin> flags w)"

subsection \<open>Observations on worlds and traces\<close>

text \<open>
  The web service of the unit is running: a service name is configured, it is not empty,
  and the service of that name runs.
\<close>

definition web_service_running :: "world \<Rightarrow> bool" where
  "web_service_running w =
     (case service_name w of None \<Rightarrow> False | Some n \<Rightarrow> n \<noteq> [] \<and> service_running n w)"

text \<open>The events a computation from \<open>w\<close> to \<open>w'\<close> added to the trace.\<close>

definition new_events :: "world \<Rightarrow> world \<Rightarrow> event list" where
  "new_events w w' = drop (length (trace w)) (trace w')"

definition grows :: "world \<Rightarrow> world \<Rightarrow> bool" where
  "grows w w' = prefix (trace w) (trace w')"

definition is_service_start :: "event \<Rightarrow> bool" where
  "is_service_start ev = (case ev of ServiceStart n \<Rightarrow> True | _ \<Rightarrow> False)"

definition is_service_stop :: "event \<Rightarrow> bool" where
  "is_service_stop ev = (case ev of ServiceStop n \<Rightarrow> True | _ \<Rightarrow> False)"

definition is_run :: "event \<Rightarrow> bool" where
  "is_run ev = (case ev of Run argv m res \<Rightarrow> True | _ \<Rightarrow> False)"

definition is_status_set :: "event \<Rightarrow> bool" where
  "is_status_set ev = (case ev of StatusSet s m \<Rightarrow> True | _ \<Rightarrow> False)"

text \<open>The service was started somewhere between \<open>w\<close> and \<open>w'\<close>.\<close>

definition restarted :: "world \<Rightarrow> world \<Rightarrow> bool" where
  "restarted w w' = list_ex is_service_start (new_events w w')"

text \<open>
  The value of the loop variable \<^verbatim>\<open>fqdn\<close> after the requests \<open>rs\<close> have gone through
  the loop of \<^verbatim>\<open>create_certificates\<close>.
\<close>

definition fqdn_after :: "string option \<Rightarrow> cert_request list \<Rightarrow> string option" where
  "fqdn_after v rs = foldl (\<lambda>u r. case fqdn r of None \<Rightarrow> u | Some fs \<Rightarrow> bind_last u fs) v rs"

text \<open>
  A request as the data model has it: both keys present and at least one name.
\<close>

definition well_formed :: "cert_request \<Rightarrow> bool" where
  "well_formed r =
     (case fqdn r of
        None \<Rightarrow> False
      | Some fs \<Rightarrow> fs \<noteq> [] \<and> (case contact_email r of None \<Rightarrow> False | Some m \<Rightarrow> True))"

definition is_exit0 :: "proc_result \<Rightarrow> bool" where
  "is_exit0 res = (case res of Exited0 out \<Rightarrow> True | _ \<Rightarrow> False)"

text \<open>An event that is not a program run that ended other than with exit status 0.\<close>

definition run_ok :: "event \<Rightarrow> bool" where
  "run_ok ev = (case ev of Run argv m res \<Rightarrow> is_exit0 res | _ \<Rightarrow> True)"

text \<open>Every program run between \<open>w\<close> and \<open>w'\<close> ended with exit status 0.\<close>

definition clean :: "world \<Rightarrow> world \<Rightarrow> bool" where
  "clean w w' = list_all run_ok (new_events w w')"

text \<open>No program was run between \<open>w\<close> and \<open>w'\<close>.\<close>

definition quiet :: "world \<Rightarrow> world \<Rightarrow> bool" where
  "quiet w w' = (\<not> list_ex is_run (new_events w w'))"


subsection \<open>Example worlds\<close>

text \<open>
  A unit with the client installed, ports 80 and 443 open, a running web service
  \<^verbatim>\<open>nginx\<close>, one stored request and no certificate yet.
\<close>

definition request0 :: cert_request where
  "request0 = \<lparr>fqdn = Some [''x.example.com''], contact_email = Some []\<rparr>"

definition world0 :: world where
  "world0 =
     \<lparr>flags = {''apt.installed.letsencrypt'', ''lets-encrypt.certificate-requested''},
      status = None,
      ports = {80, 443},
      series = ''xenial'',
      apt_queue = [],
      apt_installed = {''letsencrypt''},
      config = Map.empty,
      prev_config = None,
      kv_requests = Some [request0],
      service_name = Some ''nginx'',
      running = {''nginx''},
      dirs = {},
      files = {''/charm/files/dhparam.pem''},
      crontab = [],
      environ = [''CHARM_DIR'' \<mapsto> ''/charm''],
      trace = []\<rparr>"

text \<open>
  An environment in which the port query and \<^verbatim>\<open>which\<close> succeed and the client always
  exits with a non-zero status, and one in which the client succeeds and creates the
  directories of the names it is asked for.
\<close>

definition env_fail :: env where
  "env_fail =
     \<lparr>run = (\<lambda>argv merge w.
               if argv = [''opened-ports''] then (Exited0 ''80/tcp 443/tcp'', {})
               else if argv = [''which'', ''charms.reactive'']
               then (Exited0 ''/usr/bin/charms.reactive'', {})
               else (ExitedNonZero ''boom'', {})),
      randint = (\<lambda>w. 7)\<rparr>"

definition request_a :: cert_request where
  "request_a = \<lparr>fqdn = Some [''a.example.com''], contact_email = Some ''admin@example.com''\<rparr>"

definition request_b :: cert_request where
  "request_b = \<lparr>fqdn = Some [''b.example.com''], contact_email = Some []\<rparr>"

text \<open>A request without the \<^verbatim>\<open>'contact-email'\<close> key, and one without the \<^verbatim>\<open>'fqdn'\<close> key.\<close>

definition request_no_email :: cert_request where
  "request_no_email = \<lparr>fqdn = Some [''x.example.com''], contact_email = None\<rparr>"

definition request_no_fqdn :: cert_request where
  "request_no_fqdn = \<lparr>fqdn = None, contact_email = Some []\<rparr>"

text \<open>
  An environment in which the client fails for \<^verbatim>\<open>b.example.com\<close> and succeeds for every
  other name, creating the directory of \<^verbatim>\<open>a.example.com\<close> when asked for it.
\<close>

definition env_mixed :: env where
  "env_mixed =
     \<lparr>run = (\<lambda>argv merge w.
               if argv = [''opened-ports''] then (Exited0 ''80/tcp 443/tcp'', {})
               else if argv = [''which'', ''charms.reactive'']
               then (Exited0 ''/usr/bin/charms.reactive'', {})
               else if ''b.example.com'' \<in> set argv then (ExitedNonZero ''boom'', {})
               else (Exited0 ''done'',
                     if ''a.example.com'' \<in> set argv
                     then {''/etc/letsencrypt/live/a.example.com''} else {})),
      randint = (\<lambda>w. 7)\<rparr>"

text \<open>The world in which the certificate of \<^verbatim>\<open>x.example.com\<close> exists already.\<close>

definition world_issued :: world where
  "world_issued = world0\<lparr>dirs := {''/etc/letsencrypt/live/x.example.com''}\<rparr>"

definition request_y_no_email :: cert_request where
  "request_y_no_email = \<lparr>fqdn = Some [''y.example.com''], contact_email = None\<rparr>"

text \<open>The world in which the stored request has no \<^verbatim>\<open>'fqdn'\<close> key.\<close>

definition world_bad :: world where
  "world_bad = world0\<lparr>kv_requests := Some [request_no_fqdn]\<rparr>"

text \<open>
  A registered unit whose \<^verbatim>\<open>fqdn\<close> option was \<^verbatim>\<open>a.example.com\<close> in the previous hook
  and is \<^verbatim>\<open>b.example.com\<close> now.
\<close>

definition world_registered :: world where
  "world_registered =
     world0\<lparr>flags := {''apt.installed.letsencrypt'', ''lets-encrypt.registered'',
                       ''config.set.fqdn'', ''config.changed.fqdn''},
            config := [''fqdn'' \<mapsto> ''b.example.com''],
            prev_config := Some [''fqdn'' \<mapsto> ''a.example.com'']\<rparr>"

text \<open>A freshly deployed unit on Ubuntu 18.04, whose series name is \<^verbatim>\<open>bionic\<close>.\<close>

definition world_bionic :: world where
  "world_bionic =
     \<lparr>flags = {},
      status = None,
      ports = {},
      series = ''bionic'',
      apt_queue = [],
      apt_installed = {},
      config = Map.empty,
      prev_config = None,
      kv_requests = None,
      service_name = None,
      running = {},
      dirs = {},
      files = {},
      crontab = [],
      environ = Map.empty,
      trace = []\<rparr>"

section \<open>Properties\<close>

subsection \<open>Traces and frames\<close>

lemmas prims = emit_def log_def print_def status_set_def open_port_def set_state_def
  remove_state_def service_running_def service_stop_def service_start_def isdir_def

lemmas observers = grows_def restarted_def new_events_def is_service_start_def

lemma grows_refl: "grows w w"
  by (simp add: grows_def)

lemma grows_trans: "grows w w1 \<Longrightarrow> grows w1 w2 \<Longrightarrow> grows w w2"
  unfolding grows_def by (rule prefix_order.trans)

lemma new_events_append:
  "grows w w1 \<Longrightarrow> grows w1 w2 \<Longrightarrow> new_events w w2 = new_events w w1 @ new_events w1 w2"
  by (auto simp: grows_def new_events_def prefix_def)

lemma grows_trace: "grows w w' \<Longrightarrow> trace w' = trace w @ new_events w w'"
  by (auto simp: grows_def new_events_def prefix_def)

lemma restarted_append:
  "grows w w1 \<Longrightarrow> grows w1 w2 \<Longrightarrow> restarted w w2 = (restarted w w1 \<or> restarted w1 w2)"
  by (simp add: restarted_def new_events_append list_ex_iff) blast

lemma check_output_snd:
  "snd (check_output e a m w)
     = emit (Run a m (fst (run e a m w))) (w\<lparr>dirs := dirs w \<union> snd (run e a m w)\<rparr>)"
  by (simp add: check_output_def Let_def split: prod.splits proc_result.splits)

lemma check_output_fst:
  "fst (check_output e a m w)
     = (case fst (run e a m w) of
          Exited0 out \<Rightarrow> Inr out
        | ExitedNonZero out \<Rightarrow> Inl (CalledProcessError out)
        | NotStarted msg \<Rightarrow> Inl (OSError msg))"
  by (simp add: check_output_def Let_def split: prod.splits proc_result.splits)

lemma check_output_frame:
  "service_name (snd (check_output e a m w)) = service_name w"
  "running (snd (check_output e a m w)) = running w"
  "flags (snd (check_output e a m w)) = flags w"
  "kv_requests (snd (check_output e a m w)) = kv_requests w"
  "crontab (snd (check_output e a m w)) = crontab w"
  "status (snd (check_output e a m w)) = status w"
  "environ (snd (check_output e a m w)) = environ w"
  "files (snd (check_output e a m w)) = files w"
  "config (snd (check_output e a m w)) = config w"
  "trace (snd (check_output e a m w)) = trace w @ [Run a m (fst (run e a m w))]"
  "dirs (snd (check_output e a m w)) = dirs w \<union> snd (run e a m w)"
  by (simp_all add: check_output_snd emit_def)

subsection \<open>The service around a window\<close>

lemma issue_try_frame:
  "service_name (snd (issue_try e v fs ma w)) = service_name w"
  "running (snd (issue_try e v fs ma w)) = running w"
  "grows w (snd (issue_try e v fs ma w))"
  "\<not> restarted w (snd (issue_try e v fs ma w))"
  by (simp_all add: issue_try_def split_beta check_output_frame prims observers
      split: sum.splits option.splits)

lemma issue_except_frame:
  "service_name (snd (issue_except (r, w))) = service_name w"
  "running (snd (issue_except (r, w))) = running w"
  "grows w (snd (issue_except (r, w)))"
  "\<not> restarted w (snd (issue_except (r, w)))"
  by (simp_all add: issue_except_def prims observers split: sum.splits exn.splits)

lemma renew_try_frame:
  "service_name (snd (renew_try e f w)) = service_name w"
  "running (snd (renew_try e f w)) = running w"
  "grows w (snd (renew_try e f w))"
  "\<not> restarted w (snd (renew_try e f w))"
  by (simp_all add: renew_try_def split_beta check_output_frame prims observers
      split: sum.splits exn.splits)

lemma stop_fst: "fst (stop_running_web_service w) = web_service_running w"
  by (simp add: stop_running_web_service_def web_service_running_def split: option.splits)

lemma stop_idle: "\<not> web_service_running w \<Longrightarrow> snd (stop_running_web_service w) = w"
  by (cases "service_name w") (auto simp: stop_running_web_service_def web_service_running_def)

lemma stop_frame:
  "service_name (snd (stop_running_web_service w)) = service_name w"
  "grows w (snd (stop_running_web_service w))"
  "\<not> restarted w (snd (stop_running_web_service w))"
  by (simp_all add: stop_running_web_service_def prims observers split: option.splits)

lemma start_frame:
  "service_name (start_web_service w) = service_name w"
  "grows w (start_web_service w)"
  "restarted w (start_web_service w) = truthy (service_name w)"
  "web_service_running (start_web_service w) = truthy (service_name w)"
  by (simp_all add: start_web_service_def prims observers web_service_running_def
      split: option.splits)

lemma running_truthy: "web_service_running w \<Longrightarrow> truthy (service_name w)"
  by (simp add: web_service_running_def split: option.splits)

lemma wsr_cong:
  "service_name w' = service_name w \<Longrightarrow> running w' = running w
     \<Longrightarrow> web_service_running w' = web_service_running w"
  by (cases "service_name w") (simp_all add: web_service_running_def service_running_def)

text \<open>
  The shape shared by both windows: the service is stopped if it runs, something that
  neither starts a service nor changes the run state happens, and the service is started
  again if it was stopped.
\<close>

lemma yield_window:
  assumes g: "grows (snd (stop_running_web_service w)) w2"
    and n: "\<not> restarted (snd (stop_running_web_service w)) w2"
    and s: "service_name w2 = service_name (snd (stop_running_web_service w))"
    and r: "running w2 = running (snd (stop_running_web_service w))"
  defines "w3 \<equiv> (if fst (stop_running_web_service w) then start_web_service w2 else w2)"
  shows "web_service_running w3 = web_service_running w"
    and "restarted w w3 = web_service_running w"
    and "grows w w3"
proof -
  have g02: "grows w w2" using stop_frame(2) g by (rule grows_trans)
  have n02: "\<not> restarted w w2"
    using n by (simp add: restarted_append [OF stop_frame(2) g] stop_frame)
  have s02: "service_name w2 = service_name w" by (simp add: s stop_frame)
  have g23: "grows w2 w3" by (simp add: w3_def start_frame grows_refl)
  show "grows w w3" using g02 g23 by (rule grows_trans)
  show "web_service_running w3 = web_service_running w"
  proof (cases "web_service_running w")
    case True
    then have "truthy (service_name w2)" by (simp add: s02 running_truthy)
    with True show ?thesis by (simp add: w3_def stop_fst start_frame)
  next
    case False
    then have "service_name w2 = service_name w" and "running w2 = running w"
      using s r by (simp_all add: stop_idle)
    then have "web_service_running w2 = web_service_running w" by (rule wsr_cong)
    with False show ?thesis by (simp add: w3_def stop_fst)
  qed
  show "restarted w w3 = web_service_running w"
  proof (cases "web_service_running w")
    case True
    then have "truthy (service_name w2)" by (simp add: s02 running_truthy)
    with True show ?thesis
      by (simp add: w3_def stop_fst restarted_append [OF g02 start_frame(2)] start_frame)
  next
    case False
    with n02 show ?thesis by (simp add: w3_def stop_fst)
  qed
qed

lemma issue_request_window:
  assumes "contact_email r = Some m"
  shows "web_service_running (snd (issue_request e v fs r w)) = web_service_running w"
    and "restarted w (snd (issue_request e v fs r w)) = web_service_running w"
    and "grows w (snd (issue_request e v fs r w))"
proof -
  define w1 where "w1 = snd (stop_running_web_service w)"
  define w2 where "w2 = snd (issue_except (issue_try e v fs (mail_args m) w1))"
  have eq: "snd (issue_request e v fs r w)
              = (if fst (stop_running_web_service w) then start_web_service w2 else w2)"
    by (simp add: issue_request_def assms split_beta w1_def w2_def)
  obtain r1 wt where tr: "issue_try e v fs (mail_args m) w1 = (r1, wt)"
    by (cases "issue_try e v fs (mail_args m) w1")
  have wt: "wt = snd (issue_try e v fs (mail_args m) w1)" by (simp add: tr)
  have w2: "w2 = snd (issue_except (r1, wt))" by (simp add: w2_def tr)
  have gt: "grows w1 wt" and nt: "\<not> restarted w1 wt" and st: "service_name wt = service_name w1"
    and rt: "running wt = running w1"
    by (simp_all add: wt issue_try_frame)
  have g2: "grows wt w2" and n2: "\<not> restarted wt w2" and s2: "service_name w2 = service_name wt"
    and r2: "running w2 = running wt"
    by (simp_all add: w2 issue_except_frame)
  have g: "grows (snd (stop_running_web_service w)) w2"
    using gt g2 unfolding w1_def by (rule grows_trans)
  have n: "\<not> restarted (snd (stop_running_web_service w)) w2"
    using nt n2 by (simp add: restarted_append [OF gt g2] w1_def [symmetric])
  have s: "service_name w2 = service_name (snd (stop_running_web_service w))"
    using s2 st by (simp add: w1_def)
  have r: "running w2 = running (snd (stop_running_web_service w))"
    using r2 rt by (simp add: w1_def)
  show "web_service_running (snd (issue_request e v fs r w)) = web_service_running w"
    unfolding eq by (rule yield_window(1) [OF g n s r])
  show "restarted w (snd (issue_request e v fs r w)) = web_service_running w"
    unfolding eq by (rule yield_window(2) [OF g n s r])
  show "grows w (snd (issue_request e v fs r w))"
    unfolding eq by (rule yield_window(3) [OF g n s r])
qed

lemma print_frame:
  "service_name (print s w) = service_name w"
  "running (print s w) = running w"
  "grows w (print s w)"
  "\<not> restarted w (print s w)"
  by (simp_all add: prims observers)

lemma print_running: "web_service_running (print s w) = web_service_running w"
  by (rule wsr_cong) (simp_all add: print_frame)

lemma open_ports_frame:
  "service_name (open_port 443 (open_port 80 w)) = service_name w"
  "running (open_port 443 (open_port 80 w)) = running w"
  "grows w (open_port 443 (open_port 80 w))"
  "\<not> restarted w (open_port 443 (open_port 80 w))"
  by (simp_all add: prims observers)

lemma renew_window_service:
  shows "web_service_running (snd (renew_window e w)) = web_service_running w"
    and "restarted w (snd (renew_window e w)) = web_service_running w"
    and "grows w (snd (renew_window e w))"
proof -
  define w0 where "w0 = print ''Renewing certificate...'' w"
  define w1 where "w1 = snd (stop_running_web_service w0)"
  define wp where "wp = open_port 443 (open_port 80 w1)"
  define w2 where "w2 = snd (renew_try e (config_get w0 ''fqdn'') wp)"
  have eq: "snd (renew_window e w)
              = (if fst (stop_running_web_service w0) then start_web_service w2 else w2)"
    by (simp add: renew_window_def Let_def split_beta w0_def w1_def w2_def wp_def)
  have gp: "grows w1 wp" and np: "\<not> restarted w1 wp" and sp: "service_name wp = service_name w1"
    and rp: "running wp = running w1"
    by (simp_all add: wp_def open_ports_frame)
  have g2: "grows wp w2" and n2: "\<not> restarted wp w2" and s2: "service_name w2 = service_name wp"
    and r2: "running w2 = running wp"
    by (simp_all add: w2_def renew_try_frame)
  have g: "grows (snd (stop_running_web_service w0)) w2"
    using gp g2 unfolding w1_def by (rule grows_trans)
  have n: "\<not> restarted (snd (stop_running_web_service w0)) w2"
    using np n2 by (simp add: restarted_append [OF gp g2] w1_def [symmetric])
  have s: "service_name w2 = service_name (snd (stop_running_web_service w0))"
    using s2 sp by (simp add: w1_def)
  have r: "running w2 = running (snd (stop_running_web_service w0))"
    using r2 rp by (simp add: w1_def)
  have g0: "grows w w0" by (simp add: w0_def print_frame)
  have g03: "grows w0 (snd (renew_window e w))"
    unfolding eq by (rule yield_window(3) [OF g n s r])
  have "web_service_running (snd (renew_window e w)) = web_service_running w0"
    unfolding eq by (rule yield_window(1) [OF g n s r])
  then show "web_service_running (snd (renew_window e w)) = web_service_running w"
    by (simp add: w0_def print_running)
  have "restarted w0 (snd (renew_window e w)) = web_service_running w0"
    unfolding eq by (rule yield_window(2) [OF g n s r])
  then show "restarted w (snd (renew_window e w)) = web_service_running w"
    by (simp add: restarted_append [OF g0 g03]) (simp add: w0_def print_frame print_running)
  show "grows w (snd (renew_window e w))"
    using g0 g03 by (rule grows_trans)
qed

text \<open>
  Once the client is invoked, the service is restored: whatever the invocation does (exit
  status 0, a non-zero exit status, or an exception of another kind), the web service runs
  after the window exactly when it ran before it, and it is started in the window exactly
  when it ran before it. For the issuance window this needs the request to have its
  \<^verbatim>\<open>'contact-email'\<close> key, without which the client is never reached.
\<close>

lemma client_exit_paths_restore_service:
  assumes "contact_email r = Some m"
  shows "web_service_running (snd (issue_request e v fs r w)) = web_service_running w
       \<and> restarted w (snd (issue_request e v fs r w)) = web_service_running w
       \<and> web_service_running (snd (renew_window e w)) = web_service_running w
       \<and> restarted w (snd (renew_window e w)) = web_service_running w"
  using issue_request_window(1,2) [OF assms] renew_window_service(1,2) by simp

text \<open>
  Claim C1: after every issuance or renewal window the web service runs again if it ran
  before, on every exit path, and it is restarted exactly when it ran before. This does
  not hold of the code for every issuance window. The service is stopped at line 211, the \<^verbatim>\<open>'contact-email'\<close> key is read at line 214, and the \<^verbatim>\<open>try\<close> whose
  \<^verbatim>\<open>finally\<close> clause restarts the service opens only at line 219. For a request without
  that key, none of whose names has a certificate directory, the \<^verbatim>\<open>KeyError\<close> leaves the
  function between the stop and the \<^verbatim>\<open>try\<close>: in the example world the web service runs
  before the call, and after it the service is stopped and was never started again.
\<close>

theorem service_left_stopped_after_key_error:
  "web_service_running world0
   \<and> fst (create_certificates env_fail [request_y_no_email] world0)
       = Inl (KeyError ''contact-email'')
   \<and> \<not> web_service_running (snd (create_certificates env_fail [request_y_no_email] world0))
   \<and> \<not> restarted world0 (snd (create_certificates env_fail [request_y_no_email] world0))
   \<and> new_events world0 (snd (create_certificates env_fail [request_y_no_email] world0))
       = [Log ''stopping running service: nginx'', ServiceStop ''nginx'']"
  by (simp add: create_certificates_def issue_request_def stop_running_web_service_def
      web_service_running_def restarted_def new_events_def is_service_start_def
      live_path_def bind_last_def prims request_y_no_email_def world0_def)

subsection \<open>The loop of \<^verbatim>\<open>create_certificates\<close>\<close>

lemma fqdn_after_Cons:
  "fqdn_after v (r # rs)
     = fqdn_after (case fqdn r of None \<Rightarrow> v | Some fs \<Rightarrow> bind_last v fs) rs"
  by (simp add: fqdn_after_def)

lemma loop_append:
  "create_certificates_loop e v (rs1 @ rs2) w
     = (let (res, w1) = create_certificates_loop e v rs1 w
        in if res = Inr True then create_certificates_loop e (fqdn_after v rs1) rs2 w1
           else (res, w1))"
proof (induction rs1 arbitrary: v w)
  case Nil
  show ?case by (simp add: fqdn_after_def)
next
  case (Cons r rs1)
  show ?case
  proof (cases "fqdn r")
    case None
    then show ?thesis by simp
  next
    case (Some fs)
    have fa: "fqdn_after v (r # rs1) = fqdn_after (bind_last v fs) rs1"
      using Some by (simp add: fqdn_after_Cons)
    show ?thesis
    proof (cases "list_ex (\<lambda>p. isdir p w) (map live_path fs)")
      case True
      with Some show ?thesis
        unfolding fa by (simp add: Cons.IH)
    next
      case False
      obtain res w' where ir: "issue_request e (bind_last v fs) fs r w = (res, w')"
        by (cases "issue_request e (bind_last v fs) fs r w")
      show ?thesis
      proof (cases res)
        case (Inl x)
        with Some False ir show ?thesis unfolding fa by simp
      next
        case (Inr c)
        with Some False ir show ?thesis
          unfolding fa by (cases c) (simp_all add: Cons.IH)
      qed
    qed
  qed
qed

lemma loop_after_prefix:
  assumes "create_certificates_loop e v rs1 w = (Inr True, w1)"
  shows "create_certificates_loop e v (rs1 @ rs2) w
           = create_certificates_loop e (fqdn_after v rs1) rs2 w1"
  by (simp add: loop_append assms)

lemma any_isdir: "list_ex (\<lambda>p. isdir p w) (map live_path fs) = (\<exists>f\<in>set fs. isdir (live_path f) w)"
  by (simp add: list_ex_iff)

lemma loop_skip:
  assumes "fqdn r = Some fs" and "\<exists>f\<in>set fs. isdir (live_path f) w"
  shows "create_certificates_loop e v (r # rs) w
           = create_certificates_loop e (bind_last v fs) rs w"
  using assms by (simp add: any_isdir)

text \<open>
  Claim C5. A request of which at least one name already has a certificate directory is
  passed over: wherever it stands in the batch, the loop goes on with the rest of the
  batch from the very world in which it met the request, so no program was run, no service
  stopped or started, no status set and no file or directory touched for it. A batch that
  consists of such a request alone returns true and leaves the world as it is.
\<close>

theorem existing_certificate_skips_request:
  assumes "create_certificates_loop e v rs1 w0 = (Inr True, w)"
    and "fqdn r = Some fs"
    and "\<exists>f\<in>set fs. isdir (live_path f) w"
  shows "create_certificates_loop e v (rs1 @ r # rs2) w0
           = create_certificates_loop e (bind_last (fqdn_after v rs1) fs) rs2 w
       \<and> create_certificates e [r] w = (Inr True, w)"
  using assms(2,3)
  by (simp add: loop_after_prefix [OF assms(1)] any_isdir create_certificates_def)

theorem existing_certificate_skips_request_witness:
  "create_certificates_loop env_fail None [request0] world_issued = (Inr True, world_issued)
   \<and> fqdn request0 = Some [''x.example.com'']
   \<and> (\<exists>f\<in>set [''x.example.com'']. isdir (live_path f) world_issued)
   \<and> create_certificates_loop env_fail None ([request0] @ request0 # [request_b]) world_issued
       = create_certificates_loop env_fail
           (bind_last (fqdn_after None [request0]) [''x.example.com'']) [request_b] world_issued
   \<and> create_certificates env_fail [request0] world_issued = (Inr True, world_issued)"
proof -
  have h2: "fqdn request0 = Some [''x.example.com'']"
    by (simp add: request0_def)
  have h3: "\<exists>f\<in>set [''x.example.com'']. isdir (live_path f) world_issued"
    by (simp add: isdir_def live_path_def world_issued_def)
  have h1: "create_certificates_loop env_fail None [request0] world_issued
              = (Inr True, world_issued)"
    using h3 by (simp add: h2 any_isdir)
  have "create_certificates_loop env_fail None ([request0] @ request0 # [request_b]) world_issued
          = create_certificates_loop env_fail
              (bind_last (fqdn_after None [request0]) [''x.example.com'']) [request_b] world_issued
        \<and> create_certificates env_fail [request0] world_issued = (Inr True, world_issued)"
    by (rule existing_certificate_skips_request [OF h1 h2 h3])
  with h1 h2 h3 show ?thesis by blast
qed

subsection \<open>Results of the issuance window\<close>

lemma clean_refl: "clean w w"
  by (simp add: clean_def new_events_def)

lemma clean_append:
  "grows w w1 \<Longrightarrow> grows w1 w2 \<Longrightarrow> clean w w2 = (clean w w1 \<and> clean w1 w2)"
  by (simp add: clean_def new_events_append)

lemma quiet_append:
  "grows w w1 \<Longrightarrow> grows w1 w2 \<Longrightarrow> quiet w w2 = (quiet w w1 \<and> quiet w1 w2)"
  by (auto simp: quiet_def new_events_append)

lemmas trace_obs = clean_def quiet_def run_ok_def is_run_def is_exit0_def new_events_def

lemma stop_clean:
  "clean w (snd (stop_running_web_service w))"
  "quiet w (snd (stop_running_web_service w))"
  "dirs (snd (stop_running_web_service w)) = dirs w"
  by (simp_all add: stop_running_web_service_def prims trace_obs split: option.splits)

lemma start_clean:
  "clean w (start_web_service w)"
  "dirs (start_web_service w) = dirs w"
  by (simp_all add: start_web_service_def prims trace_obs split: option.splits)

lemma issue_try_fst:
  "fst (issue_try e v fs ma w)
     = (case fst (run e (le_cmd fs ma) True w) of
          Exited0 out \<Rightarrow> (case v of None \<Rightarrow> Inl (UnboundLocalError ''fqdn'') | Some f \<Rightarrow> Inr Next)
        | ExitedNonZero out \<Rightarrow> Inl (CalledProcessError out)
        | NotStarted msg \<Rightarrow> Inl (OSError msg))"
  by (simp add: issue_try_def split_beta check_output_fst
      split: sum.splits option.splits proc_result.splits)

lemma issue_try_clean:
  "clean w (snd (issue_try e v fs ma w)) = is_exit0 (fst (run e (le_cmd fs ma) True w))"
  "dirs w \<subseteq> dirs (snd (issue_try e v fs ma w))"
  by (auto simp: issue_try_def split_beta check_output_frame check_output_fst prims trace_obs
      split: sum.splits option.splits proc_result.splits)

lemma issue_except_fst:
  "fst (issue_except (r, w))
     = (case r of Inl (CalledProcessError out) \<Rightarrow> Inr ReturnFalse | _ \<Rightarrow> r)"
  by (simp add: issue_except_def split: sum.splits exn.splits)

lemma issue_except_clean:
  "clean w (snd (issue_except (r, w)))"
  "dirs (snd (issue_except (r, w))) = dirs w"
  by (simp_all add: issue_except_def prims trace_obs split: sum.splits exn.splits)


lemma issue_request_snd:
  "contact_email r = Some m \<Longrightarrow>
   snd (issue_request e v fs r w)
     = (let w1 = snd (stop_running_web_service w);
            w2 = snd (issue_except (issue_try e v fs (mail_args m) w1))
        in if fst (stop_running_web_service w) then start_web_service w2 else w2)"
  by (simp add: issue_request_def split_beta Let_def)

lemma issue_request_fst:
  assumes "contact_email r = Some m"
  shows "fst (issue_request e v fs r w)
     = (case fst (run e (le_cmd fs (mail_args m)) True (snd (stop_running_web_service w))) of
          Exited0 out \<Rightarrow> (case v of None \<Rightarrow> Inl (UnboundLocalError ''fqdn'') | Some f \<Rightarrow> Inr Next)
        | ExitedNonZero out \<Rightarrow> Inr ReturnFalse
        | NotStarted msg \<Rightarrow> Inl (OSError msg))"
proof -
  define w1 where "w1 = snd (stop_running_web_service w)"
  obtain r1 wt where tr: "issue_try e v fs (mail_args m) w1 = (r1, wt)"
    by (cases "issue_try e v fs (mail_args m) w1")
  have r1: "r1 = fst (issue_try e v fs (mail_args m) w1)" by (simp add: tr)
  have "fst (issue_request e v fs r w) = fst (issue_except (r1, wt))"
    by (simp add: issue_request_def assms split_beta w1_def [symmetric] tr)
  also have "\<dots> = (case r1 of Inl (CalledProcessError out) \<Rightarrow> Inr ReturnFalse | _ \<Rightarrow> r1)"
    by (rule issue_except_fst)
  finally show ?thesis
    unfolding r1 issue_try_fst w1_def
    by (simp split: proc_result.splits option.splits)
qed

lemma issue_request_clean:
  assumes "contact_email r = Some m"
  shows "clean w (snd (issue_request e v fs r w))
           = is_exit0 (fst (run e (le_cmd fs (mail_args m)) True (snd (stop_running_web_service w))))"
proof -
  define w1 where "w1 = snd (stop_running_web_service w)"
  obtain r1 wt where tr: "issue_try e v fs (mail_args m) w1 = (r1, wt)"
    by (cases "issue_try e v fs (mail_args m) w1")
  have wt: "wt = snd (issue_try e v fs (mail_args m) w1)" by (simp add: tr)
  define w2 where "w2 = snd (issue_except (r1, wt))"
  define w3 where "w3 = (if fst (stop_running_web_service w) then start_web_service w2 else w2)"
  have eq: "snd (issue_request e v fs r w) = w3"
    by (simp add: issue_request_snd [OF assms] Let_def w1_def [symmetric] tr w2_def w3_def)
  have g1: "grows w w1" by (simp add: w1_def stop_frame)
  have gt: "grows w1 wt" by (simp add: wt issue_try_frame)
  have g2: "grows wt w2" by (simp add: w2_def issue_except_frame)
  have g3: "grows w2 w3" by (simp add: w3_def start_frame grows_refl)
  have c1: "clean w w1" by (simp add: w1_def stop_clean)
  have ct: "clean w1 wt = is_exit0 (fst (run e (le_cmd fs (mail_args m)) True w1))"
    by (simp add: wt issue_try_clean)
  have c2: "clean wt w2" by (simp add: w2_def issue_except_clean)
  have c3: "clean w2 w3" by (simp add: w3_def start_clean clean_refl)
  have "clean w w3 = (clean w w1 \<and> clean w1 wt \<and> clean wt w2 \<and> clean w2 w3)"
    using g1 gt g2 g3
    by (simp add: clean_append [OF g1 grows_trans [OF gt grows_trans [OF g2 g3]]]
        clean_append [OF gt grows_trans [OF g2 g3]] clean_append [OF g2 g3])
  then have "clean w w3 = is_exit0 (fst (run e (le_cmd fs (mail_args m)) True w1))"
    by (simp add: c1 ct c2 c3)
  then show ?thesis
    by (simp add: eq w1_def)
qed

lemma issue_request_grows: "grows w (snd (issue_request e v fs r w))"
proof (cases "contact_email r")
  case None
  then show ?thesis by (simp add: issue_request_def split_beta stop_frame)
next
  case (Some m)
  then show ?thesis by (rule issue_request_window(3))
qed

lemma issue_request_dirs: "dirs w \<subseteq> dirs (snd (issue_request e v fs r w))"
proof (cases "contact_email r")
  case None
  then show ?thesis by (simp add: issue_request_def split_beta stop_clean)
next
  case (Some m)
  define w1 where "w1 = snd (stop_running_web_service w)"
  obtain r1 wt where tr: "issue_try e v fs (mail_args m) w1 = (r1, wt)"
    by (cases "issue_try e v fs (mail_args m) w1")
  have wt: "wt = snd (issue_try e v fs (mail_args m) w1)" by (simp add: tr)
  have "dirs w1 \<subseteq> dirs wt" unfolding wt by (rule issue_try_clean(2))
  then have "dirs w \<subseteq> dirs (snd (issue_except (r1, wt)))"
    by (simp add: issue_except_clean w1_def stop_clean)
  then show ?thesis
    by (simp add: issue_request_snd [OF Some] Let_def w1_def [symmetric] tr start_clean)
qed

lemma issue_request_quiet_no_email:
  "contact_email r = None \<Longrightarrow>
   issue_request e v fs r w = (Inl (KeyError ''contact-email''), snd (stop_running_web_service w))"
  by (simp add: issue_request_def split_beta)

subsection \<open>The batch\<close>

lemma loop_grows: "grows w (snd (create_certificates_loop e v rs w))"
proof (induction rs arbitrary: v w)
  case Nil
  show ?case by (simp add: grows_refl)
next
  case (Cons r rs)
  show ?case
  proof (cases "fqdn r")
    case None
    then show ?thesis by (simp add: grows_refl)
  next
    case (Some fs)
    show ?thesis
    proof (cases "list_ex (\<lambda>p. isdir p w) (map live_path fs)")
      case True
      with Some show ?thesis by (simp add: Cons.IH)
    next
      case False
      obtain res w' where ir: "issue_request e (bind_last v fs) fs r w = (res, w')"
        by (cases "issue_request e (bind_last v fs) fs r w")
      have g: "grows w w'"
        using issue_request_grows [of w e "bind_last v fs" fs r] by (simp add: ir)
      show ?thesis
      proof (cases res)
        case (Inl x)
        with Some False ir g show ?thesis by simp
      next
        case (Inr c)
        show ?thesis
        proof (cases c)
          case Next
          have "grows w' (snd (create_certificates_loop e (bind_last v fs) rs w'))"
            by (rule Cons.IH)
          with g have "grows w (snd (create_certificates_loop e (bind_last v fs) rs w'))"
            by (rule grows_trans)
          with Some False ir Inr Next show ?thesis by simp
        next
          case ReturnFalse
          with Some False ir Inr g show ?thesis by simp
        qed
      qed
    qed
  qed
qed

lemma loop_dirs: "dirs w \<subseteq> dirs (snd (create_certificates_loop e v rs w))"
proof (induction rs arbitrary: v w)
  case Nil
  show ?case by simp
next
  case (Cons r rs)
  show ?case
  proof (cases "fqdn r")
    case None
    then show ?thesis by simp
  next
    case (Some fs)
    show ?thesis
    proof (cases "list_ex (\<lambda>p. isdir p w) (map live_path fs)")
      case True
      with Some show ?thesis by (simp add: Cons.IH)
    next
      case False
      obtain res w' where ir: "issue_request e (bind_last v fs) fs r w = (res, w')"
        by (cases "issue_request e (bind_last v fs) fs r w")
      have g: "dirs w \<subseteq> dirs w'"
        using issue_request_dirs [of w e "bind_last v fs" fs r] by (simp add: ir)
      show ?thesis
      proof (cases res)
        case (Inl x)
        with Some False ir g show ?thesis by simp
      next
        case (Inr c)
        show ?thesis
        proof (cases c)
          case Next
          have "dirs w' \<subseteq> dirs (snd (create_certificates_loop e (bind_last v fs) rs w'))"
            by (rule Cons.IH)
          with g have "dirs w \<subseteq> dirs (snd (create_certificates_loop e (bind_last v fs) rs w'))"
            by (rule subset_trans)
          with Some False ir Inr Next show ?thesis by simp
        next
          case ReturnFalse
          with Some False ir Inr g show ?thesis by simp
        qed
      qed
    qed
  qed
qed

lemma well_formedD:
  assumes "well_formed r"
  obtains fs m where "fqdn r = Some fs" and "fs \<noteq> []" and "contact_email r = Some m"
  using assms by (auto simp: well_formed_def split: option.splits)

lemma loop_true_iff_clean:
  "list_all well_formed rs \<Longrightarrow>
   (fst (create_certificates_loop e v rs w) = Inr True)
     = clean w (snd (create_certificates_loop e v rs w))"
proof (induction rs arbitrary: v w)
  case Nil
  show ?case by (simp add: clean_refl)
next
  case (Cons r rs)
  from Cons.prems have wr: "well_formed r" and wrs: "list_all well_formed rs" by simp_all
  from wr obtain fs m where fq: "fqdn r = Some fs" and ne: "fs \<noteq> []"
    and em: "contact_email r = Some m"
    by (rule well_formedD)
  have bl: "bind_last v fs = Some (last fs)" using ne by (simp add: bind_last_def)
  show ?case
  proof (cases "list_ex (\<lambda>p. isdir p w) (map live_path fs)")
    case True
    with fq show ?thesis by (simp add: Cons.IH [OF wrs])
  next
    case False
    define res where "res = fst (run e (le_cmd fs (mail_args m)) True (snd (stop_running_web_service w)))"
    obtain c w' where ir: "issue_request e (bind_last v fs) fs r w = (c, w')"
      by (cases "issue_request e (bind_last v fs) fs r w")
    have c: "c = (case res of Exited0 out \<Rightarrow> Inr Next | ExitedNonZero out \<Rightarrow> Inr ReturnFalse
                   | NotStarted msg \<Rightarrow> Inl (OSError msg))"
    proof -
      have "c = fst (issue_request e (bind_last v fs) fs r w)" by (simp add: ir)
      then show ?thesis
        unfolding issue_request_fst [OF em] bl res_def
        by (simp split: proc_result.splits)
    qed
    have cl: "clean w w' = is_exit0 res"
      using issue_request_clean [OF em, of w e "bind_last v fs" fs] by (simp add: ir res_def)
    have g: "grows w w'"
      using issue_request_grows [of w e "bind_last v fs" fs r] by (simp add: ir)
    show ?thesis
    proof (cases res)
      case (Exited0 out)
      have g': "grows w' (snd (create_certificates_loop e (bind_last v fs) rs w'))"
        by (rule loop_grows)
      from Exited0 c have "c = Inr Next" by simp
      with fq False ir have eq: "create_certificates_loop e v (r # rs) w
          = create_certificates_loop e (bind_last v fs) rs w'"
        by simp
      show ?thesis
        unfolding eq using Exited0 cl
        by (simp add: clean_append [OF g g'] Cons.IH [OF wrs] is_exit0_def)
    next
      case (ExitedNonZero out)
      with c have "c = Inr ReturnFalse" by simp
      with fq False ir have "create_certificates_loop e v (r # rs) w = (Inr False, w')"
        by simp
      with ExitedNonZero cl show ?thesis by (simp add: is_exit0_def)
    next
      case (NotStarted msg)
      with c have "c = Inl (OSError msg)" by simp
      with fq False ir have "create_certificates_loop e v (r # rs) w = (Inl (OSError msg), w')"
        by simp
      with NotStarted cl show ?thesis by (simp add: is_exit0_def)
    qed
  qed
qed

lemma loop_fails_at:
  assumes "fqdn r = Some fs" and "contact_email r = Some m"
    and "\<not> (\<exists>f\<in>set fs. isdir (live_path f) w)"
    and "fst (run e (le_cmd fs (mail_args m)) True (snd (stop_running_web_service w)))
           = ExitedNonZero out"
  shows "create_certificates_loop e v (r # rs) w
           = (Inr False, snd (issue_request e (bind_last v fs) fs r w))"
proof -
  obtain c w' where ir: "issue_request e (bind_last v fs) fs r w = (c, w')"
    by (cases "issue_request e (bind_last v fs) fs r w")
  have "c = Inr ReturnFalse"
    using issue_request_fst [OF assms(2), of e "bind_last v fs" fs w] assms(4)
    by (simp add: ir)
  with assms(1,3) ir show ?thesis by (simp add: any_isdir)
qed

text \<open>
  Claim C2. Let the requests before request \<open>r\<close> have gone through (each skipped or
  issued), and let the client exit with a non-zero status for \<open>r\<close>. Then
  \<^verbatim>\<open>create_certificates\<close> returns false; what it returns and the world it leaves do not
  depend on the requests after \<open>r\<close>, which are not looked at; and every directory that
  existed before the call or after the earlier requests still exists at the end. For a
  batch of well-formed requests the function returns true exactly when every program it
  ran exited with status 0, that is, when every request was skipped or issued.
\<close>

theorem first_failure_aborts_batch:
  assumes "create_certificates e rs1 w = (Inr True, w1)"
    and "fqdn r = Some fs" and "contact_email r = Some m"
    and "\<not> (\<exists>f\<in>set fs. isdir (live_path f) w1)"
    and "fst (run e (le_cmd fs (mail_args m)) True (snd (stop_running_web_service w1)))
           = ExitedNonZero out"
  shows "fst (create_certificates e (rs1 @ r # rs2) w) = Inr False
       \<and> create_certificates e (rs1 @ r # rs2) w = create_certificates e (rs1 @ [r]) w
       \<and> dirs w \<subseteq> dirs w1
       \<and> dirs w1 \<subseteq> dirs (snd (create_certificates e (rs1 @ r # rs2) w))
       \<and> (list_all well_formed rs \<longrightarrow>
            (fst (create_certificates e rs w') = Inr True)
              = clean w' (snd (create_certificates e rs w')))"
proof -
  have pre: "create_certificates_loop e None rs1 w = (Inr True, w1)"
    using assms(1) by (simp add: create_certificates_def)
  define v where "v = fqdn_after None rs1"
  have a: "create_certificates e (rs1 @ r # rs2) w
             = (Inr False, snd (issue_request e (bind_last v fs) fs r w1))"
    unfolding create_certificates_def loop_after_prefix [OF pre] v_def [symmetric]
    by (rule loop_fails_at [OF assms(2-5)])
  have b: "create_certificates e (rs1 @ [r]) w
             = (Inr False, snd (issue_request e (bind_last v fs) fs r w1))"
    unfolding create_certificates_def loop_after_prefix [OF pre] v_def [symmetric]
    by (rule loop_fails_at [OF assms(2-5)])
  have c: "dirs w \<subseteq> dirs w1"
    using loop_dirs [of w e None rs1] by (simp add: pre)
  have d: "dirs w1 \<subseteq> dirs (snd (create_certificates e (rs1 @ r # rs2) w))"
    by (simp add: a issue_request_dirs)
  have t: "list_all well_formed rs \<longrightarrow>
            (fst (create_certificates e rs w') = Inr True)
              = clean w' (snd (create_certificates e rs w'))"
    by (simp add: create_certificates_def loop_true_iff_clean)
  from a b c d t show ?thesis by simp
qed

lemmas model_defs = create_certificates_def issue_request_def issue_try_def issue_except_def
  check_output_def stop_running_web_service_def start_web_service_def le_cmd_def mail_args_def
  live_path_def bind_last_def prims Let_def

lemmas example_defs = world0_def world_issued_def request0_def request_a_def request_b_def
  request_no_email_def request_no_fqdn_def env_fail_def env_mixed_def

theorem first_failure_aborts_batch_witness:
  "create_certificates env_mixed [request_a] world0
     = (Inr True, snd (create_certificates env_mixed [request_a] world0))
   \<and> fqdn request_b = Some [''b.example.com''] \<and> contact_email request_b = Some []
   \<and> \<not> (\<exists>f\<in>set [''b.example.com''].
           isdir (live_path f) (snd (create_certificates env_mixed [request_a] world0)))
   \<and> fst (run env_mixed (le_cmd [''b.example.com''] (mail_args [])) True
            (snd (stop_running_web_service (snd (create_certificates env_mixed [request_a] world0)))))
       = ExitedNonZero ''boom''
   \<and> fst (create_certificates env_mixed ([request_a] @ request_b # [request0]) world0) = Inr False
   \<and> create_certificates env_mixed ([request_a] @ request_b # [request0]) world0
       = create_certificates env_mixed ([request_a] @ [request_b]) world0
   \<and> ''/etc/letsencrypt/live/a.example.com''
       \<in> dirs (snd (create_certificates env_mixed ([request_a] @ request_b # [request0]) world0))
   \<and> list_all well_formed [request_a]
   \<and> fst (create_certificates env_mixed [request_a] world0) = Inr True
   \<and> clean world0 (snd (create_certificates env_mixed [request_a] world0))"
proof -
  define w1 where "w1 = snd (create_certificates env_mixed [request_a] world0)"
  have t: "fst (create_certificates env_mixed [request_a] world0) = Inr True"
    by (simp add: model_defs example_defs)
  have h1: "create_certificates env_mixed [request_a] world0 = (Inr True, w1)"
    using t by (simp add: w1_def prod_eq_iff)
  have d1: "dirs w1 = {''/etc/letsencrypt/live/a.example.com''}"
    unfolding w1_def by (simp add: model_defs example_defs)
  have h2: "fqdn request_b = Some [''b.example.com'']"
    and h3: "contact_email request_b = Some []"
    by (simp_all add: request_b_def)
  have h4: "\<not> (\<exists>f\<in>set [''b.example.com'']. isdir (live_path f) w1)"
    by (simp add: isdir_def d1 live_path_def)
  have h5: "fst (run env_mixed (le_cmd [''b.example.com''] (mail_args [])) True
                 (snd (stop_running_web_service w1))) = ExitedNonZero ''boom''"
    by (simp add: env_mixed_def le_cmd_def mail_args_def)
  have wf: "list_all well_formed [request_a]"
    by (simp add: well_formed_def request_a_def)
  note main = first_failure_aborts_batch [OF h1 h2 h3 h4 h5, of "[request0]" "[request_a]" world0]
  from main have c1: "fst (create_certificates env_mixed ([request_a] @ request_b # [request0]) world0) = Inr False"
    and c2: "create_certificates env_mixed ([request_a] @ request_b # [request0]) world0
       = create_certificates env_mixed ([request_a] @ [request_b]) world0"
    and c3: "dirs w1 \<subseteq> dirs (snd (create_certificates env_mixed ([request_a] @ request_b # [request0]) world0))"
    and c4: "list_all well_formed [request_a] \<longrightarrow>
            (fst (create_certificates env_mixed [request_a] world0) = Inr True)
              = clean world0 (snd (create_certificates env_mixed [request_a] world0))"
    by blast+
  from c3 have c3': "''/etc/letsencrypt/live/a.example.com''
       \<in> dirs (snd (create_certificates env_mixed ([request_a] @ request_b # [request0]) world0))"
    unfolding d1 by blast
  from c4 wf t have c5: "clean world0 (snd (create_certificates env_mixed [request_a] world0))"
    by blast
  show ?thesis
    using h1 h2 h3 h4 h5 c1 c2 c3' wf t c5 unfolding w1_def by blast
qed

subsection \<open>What registration leaves alone\<close>

lemma stop_store:
  "kv_requests (snd (stop_running_web_service w)) = kv_requests w"
  "flags (snd (stop_running_web_service w)) = flags w"
  by (simp_all add: stop_running_web_service_def prims split: option.splits)

lemma start_store:
  "kv_requests (start_web_service w) = kv_requests w"
  "flags (start_web_service w) = flags w"
  by (simp_all add: start_web_service_def prims split: option.splits)

lemma issue_try_store:
  "kv_requests (snd (issue_try e v fs ma w)) = kv_requests w"
  "flags (snd (issue_try e v fs ma w)) = flags w"
  by (simp_all add: issue_try_def split_beta check_output_frame prims
      split: sum.splits option.splits)

lemma issue_except_store:
  "kv_requests (snd (issue_except (r, w))) = kv_requests w"
  "flags (snd (issue_except (r, w))) = flags w"
  by (simp_all add: issue_except_def prims split: sum.splits exn.splits)

lemma issue_request_store:
  "kv_requests (snd (issue_request e v fs r w)) = kv_requests w"
  "flags (snd (issue_request e v fs r w)) = flags w"
proof -
  show "kv_requests (snd (issue_request e v fs r w)) = kv_requests w"
  proof (cases "contact_email r")
    case None
    then show ?thesis by (simp add: issue_request_def split_beta stop_store)
  next
    case (Some m)
    obtain r1 wt where tr:
      "issue_try e v fs (mail_args m) (snd (stop_running_web_service w)) = (r1, wt)"
      by (cases "issue_try e v fs (mail_args m) (snd (stop_running_web_service w))")
    have "kv_requests wt = kv_requests w"
      using issue_try_store(1) [of e v fs "mail_args m" "snd (stop_running_web_service w)"]
      by (simp add: tr stop_store)
    then show ?thesis
      by (simp add: issue_request_snd [OF Some] Let_def tr start_store issue_except_store)
  qed
  show "flags (snd (issue_request e v fs r w)) = flags w"
  proof (cases "contact_email r")
    case None
    then show ?thesis by (simp add: issue_request_def split_beta stop_store)
  next
    case (Some m)
    obtain r1 wt where tr:
      "issue_try e v fs (mail_args m) (snd (stop_running_web_service w)) = (r1, wt)"
      by (cases "issue_try e v fs (mail_args m) (snd (stop_running_web_service w))")
    have "flags wt = flags w"
      using issue_try_store(2) [of e v fs "mail_args m" "snd (stop_running_web_service w)"]
      by (simp add: tr stop_store)
    then show ?thesis
      by (simp add: issue_request_snd [OF Some] Let_def tr start_store issue_except_store)
  qed
qed

lemma loop_store:
  "kv_requests (snd (create_certificates_loop e v rs w)) = kv_requests w
   \<and> flags (snd (create_certificates_loop e v rs w)) = flags w"
proof (induction rs arbitrary: v w)
  case Nil
  show ?case by simp
next
  case (Cons r rs)
  show ?case
  proof (cases "fqdn r")
    case None
    then show ?thesis by simp
  next
    case (Some fs)
    show ?thesis
    proof (cases "list_ex (\<lambda>p. isdir p w) (map live_path fs)")
      case True
      with Some show ?thesis by (simp add: Cons.IH)
    next
      case False
      obtain res w' where ir: "issue_request e (bind_last v fs) fs r w = (res, w')"
        by (cases "issue_request e (bind_last v fs) fs r w")
      have k: "kv_requests w' = kv_requests w" and f: "flags w' = flags w"
        using issue_request_store [of e "bind_last v fs" fs r w] by (simp_all add: ir)
      show ?thesis
      proof (cases res)
        case (Inl x)
        with Some False ir k f show ?thesis by simp
      next
        case (Inr c)
        with Some False ir k f show ?thesis
          by (cases c) (simp_all add: Cons.IH)
      qed
    qed
  qed
qed

lemma create_certificates_store:
  "kv_requests (snd (create_certificates e rs w)) = kv_requests w"
  "flags (snd (create_certificates e rs w)) = flags w"
  by (simp_all add: create_certificates_def loop_store)

lemma opened_ports_store:
  "kv_requests (snd (opened_ports e w)) = kv_requests w"
  "flags (snd (opened_ports e w)) = flags w"
  by (simp_all add: opened_ports_def split_beta check_output_frame split: sum.splits)

lemma unconfigure_store:
  "kv_requests (unconfigure_periodic_renew w) = kv_requests w"
  "flags (unconfigure_periodic_renew w) = flags w"
  by (simp_all add: unconfigure_periodic_renew_def prims)

lemma configure_store:
  "kv_requests (snd (configure_periodic_renew e w)) = kv_requests w"
  "flags (snd (configure_periodic_renew e w)) = flags w"
  by (simp_all add: configure_periodic_renew_def split_beta check_output_frame prims Let_def
      split: sum.splits option.splits)

lemma create_dhparam_store:
  "kv_requests (snd (create_dhparam w)) = kv_requests w"
  "flags (snd (create_dhparam w)) = flags w"
  by (simp_all add: create_dhparam_def copyfile_def prims)

text \<open>
  The handler leaves the stored requests as they are, and it changes the flags in one way
  only: by setting the registered flag, after \<^verbatim>\<open>create_certificates\<close> has returned
  true for the gathered requests.
\<close>

lemma register_server_shape:
  "kv_requests (snd (register_server e w)) = kv_requests w
   \<and> (flags (snd (register_server e w)) = flags w
      \<or> (flags (snd (register_server e w)) = insert ''lets-encrypt.registered'' (flags w)
         \<and> fst (create_certificates e (gather_requests w) (snd (opened_ports e w))) = Inr True))"
proof (cases "(case kv_requests w of None \<Rightarrow> [] | Some rs \<Rightarrow> rs) = []
              \<and> \<not> truthy (config_get w ''fqdn'')")
  case True
  then show ?thesis by (auto simp add: register_server_def)
next
  case False
  obtain po w1 where op: "opened_ports e w = (po, w1)"
    by (cases "opened_ports e w")
  have k1: "kv_requests w1 = kv_requests w" and f1: "flags w1 = flags w"
    using opened_ports_store [of e w] by (simp_all add: op)
  show ?thesis
  proof (cases po)
    case (Inl x)
    with False op k1 f1 show ?thesis by (auto simp add: register_server_def)
  next
    case (Inr ps)
    show ?thesis
    proof (cases "''80/tcp'' \<in> set ps \<or> ''443/tcp'' \<in> set ps")
      case no: False
      with False op Inr k1 f1 show ?thesis
        by (auto simp add: register_server_def status_set_def emit_def)
    next
      case yes: True
      obtain cr w2 where cc: "create_certificates e (gather_requests w) w1 = (cr, w2)"
        by (cases "create_certificates e (gather_requests w) w1")
      have k2: "kv_requests w2 = kv_requests w" and f2: "flags w2 = flags w"
        using create_certificates_store [of e "gather_requests w" w1] by (simp_all add: cc k1 f1)
      show ?thesis
      proof (cases cr)
        case (Inl x)
        with False op Inr yes cc k2 f2 show ?thesis by (auto simp add: register_server_def)
      next
        case ok: (Inr b)
        show ?thesis
        proof (cases b)
          case False
          with \<open>\<not> ((case kv_requests w of None \<Rightarrow> [] | Some rs \<Rightarrow> rs) = []
              \<and> \<not> truthy (config_get w ''fqdn''))\<close> op Inr yes cc ok k2 f2
          show ?thesis by (auto simp add: register_server_def)
        next
          case True
          obtain pc w3 where cf:
            "configure_periodic_renew e (unconfigure_periodic_renew w2) = (pc, w3)"
            by (cases "configure_periodic_renew e (unconfigure_periodic_renew w2)")
          have k3: "kv_requests w3 = kv_requests w" and f3: "flags w3 = flags w"
            using configure_store [of e "unconfigure_periodic_renew w2"]
            by (simp_all add: cf unconfigure_store k2 f2)
          obtain pd w4 where dh: "create_dhparam w3 = (pd, w4)"
            by (cases "create_dhparam w3")
          have k4: "kv_requests w4 = kv_requests w" and f4: "flags w4 = flags w"
            using create_dhparam_store [of w3] by (simp_all add: dh k3 f3)
          have t: "fst (create_certificates e (gather_requests w) (snd (opened_ports e w))) = Inr True"
            by (simp add: op cc ok True)
          show ?thesis
          proof (cases pc)
            case (Inl x)
            with \<open>\<not> ((case kv_requests w of None \<Rightarrow> [] | Some rs \<Rightarrow> rs) = []
              \<and> \<not> truthy (config_get w ''fqdn''))\<close> op Inr yes cc ok True cf k3 f3
            show ?thesis by (auto simp add: register_server_def)
          next
            case pcr: (Inr u)
            show ?thesis
            proof (cases pd)
              case (Inl x)
              with \<open>\<not> ((case kv_requests w of None \<Rightarrow> [] | Some rs \<Rightarrow> rs) = []
                \<and> \<not> truthy (config_get w ''fqdn''))\<close> op Inr yes cc ok True cf pcr dh k4 f4
              show ?thesis by (auto simp add: register_server_def)
            next
              case pdr: (Inr u')
              have "snd (register_server e w) = set_state ''lets-encrypt.registered'' w4"
                using \<open>\<not> ((case kv_requests w of None \<Rightarrow> [] | Some rs \<Rightarrow> rs) = []
                  \<and> \<not> truthy (config_get w ''fqdn''))\<close> op Inr yes cc ok True cf pcr dh pdr
                by (auto simp add: register_server_def)
              then show ?thesis
                using k4 f4 t by (simp add: set_state_def emit_def)
            qed
          qed
        qed
      qed
    qed
  qed
qed

lemmas handler_defs = register_server_def opened_ports_def split_ws_def is_space_def
  gather_requests_def config_get_def register_server_enabled_def

lemma world0_first_cycle:
  "fst (register_server env_fail world0) = Inr ()"
  "kv_requests (snd (register_server env_fail world0)) = Some [request0]"
  "flags (snd (register_server env_fail world0)) = flags world0"
  "trace (snd (register_server env_fail world0))
     = [Run [''opened-ports''] False (Exited0 ''80/tcp 443/tcp''),
        Log ''stopping running service: nginx'',
        ServiceStop ''nginx'',
        Run (le_cmd [''x.example.com''] (mail_args [])) True (ExitedNonZero ''boom''),
        StatusSet ''blocked'' (''letsencrypt registration failed: '' @ [CHR 0x0A] @ ''boom''),
        Print ''boom'',
        Log ''starting service: nginx'',
        ServiceStart ''nginx'']"
  by (simp_all add: handler_defs model_defs example_defs)

lemma gather_requests_idle:
  "(case kv_requests w of None \<Rightarrow> [] | Some rs \<Rightarrow> rs) = [] \<and> \<not> truthy (config_get w ''fqdn'')
     \<Longrightarrow> gather_requests w = []"
  by (auto simp: gather_requests_def split: option.splits)

lemma register_server_propagates:
  assumes "fst (opened_ports e w) = Inr ps"
    and "''80/tcp'' \<in> set ps \<or> ''443/tcp'' \<in> set ps"
    and "fst (create_certificates e (gather_requests w) (snd (opened_ports e w))) = Inl x"
  shows "fst (register_server e w) = Inl x"
proof -
  have busy: "\<not> ((case kv_requests w of None \<Rightarrow> [] | Some rs \<Rightarrow> rs) = []
                 \<and> \<not> truthy (config_get w ''fqdn''))"
  proof
    assume "(case kv_requests w of None \<Rightarrow> [] | Some rs \<Rightarrow> rs) = []
              \<and> \<not> truthy (config_get w ''fqdn'')"
    then have "gather_requests w = []" by (rule gather_requests_idle)
    with assms(3) show False by (simp add: create_certificates_def)
  qed
  obtain w1 where op: "opened_ports e w = (Inr ps, w1)"
    using assms(1) by (cases "opened_ports e w") simp
  obtain w2 where cc: "create_certificates e (gather_requests w) w1 = (Inl x, w2)"
    using assms(3) by (cases "create_certificates e (gather_requests w) w1") (simp add: op)
  from busy op cc assms(2) show ?thesis
    by (auto simp add: register_server_def)
qed

text \<open>
  Claim C3, as stated, fails: the handler never writes the stored requests. In the example
  world the client is run for the stored request and fails; afterwards the request is
  still stored and the handler is still enabled, and the next cycle runs the client for
  the same request a second time.
\<close>

theorem failed_request_is_kept_and_retried:
  "Run (le_cmd [''x.example.com''] (mail_args [])) True (ExitedNonZero ''boom'')
     \<in> set (trace (snd (register_server env_fail world0)))
   \<and> kv_requests (snd (register_server env_fail world0)) = Some [request0]
   \<and> register_server_enabled (snd (register_server env_fail world0))
   \<and> count_list (trace (snd (register_server env_fail (snd (register_server env_fail world0)))))
        (Run (le_cmd [''x.example.com''] (mail_args [])) True (ExitedNonZero ''boom'')) = 2"
proof -
  have a: "Run (le_cmd [''x.example.com''] (mail_args [])) True (ExitedNonZero ''boom'')
     \<in> set (trace (snd (register_server env_fail world0)))"
    by (simp add: world0_first_cycle)
  have b: "register_server_enabled (snd (register_server env_fail world0))"
    by (simp add: register_server_enabled_def world0_first_cycle) (simp add: world0_def)
  have c: "count_list (trace (snd (register_server env_fail (snd (register_server env_fail world0)))))
        (Run (le_cmd [''x.example.com''] (mail_args [])) True (ExitedNonZero ''boom'')) = 2"
    by (simp add: handler_defs model_defs example_defs)
  from a b c world0_first_cycle(2) show ?thesis by blast
qed

text \<open>
  Claim C3, amended. \<^verbatim>\<open>register_server\<close> leaves the stored requests as they are,
  whatever the outcome of the attempt; and when the handler was enabled and has not set
  the registered flag, it is enabled again afterwards, so the next cycle runs it on the
  same stored requests.
\<close>

theorem pending_requests_are_kept:
  "kv_requests (snd (register_server e w)) = kv_requests w
   \<and> (register_server_enabled w
        \<and> ''lets-encrypt.registered'' \<notin> flags (snd (register_server e w))
      \<longrightarrow> register_server_enabled (snd (register_server e w)))"
proof -
  define w' where "w' = snd (register_server e w)"
  have k: "kv_requests w' = kv_requests w"
    and f: "flags w' = flags w \<or> flags w' = insert ''lets-encrypt.registered'' (flags w)"
    using register_server_shape [of e w] unfolding w'_def by blast+
  have "register_server_enabled w'"
    if en: "register_server_enabled w" and nr: "''lets-encrypt.registered'' \<notin> flags w'"
  proof -
    from f nr have "flags w' = flags w" by blast
    with en show ?thesis unfolding register_server_enabled_def by simp
  qed
  with k show ?thesis unfolding w'_def by blast
qed

theorem pending_requests_are_kept_witness:
  "register_server_enabled world0
   \<and> ''lets-encrypt.registered'' \<notin> flags (snd (register_server env_fail world0))
   \<and> kv_requests (snd (register_server env_fail world0)) = kv_requests world0
   \<and> register_server_enabled (snd (register_server env_fail world0))"
proof -
  have a: "register_server_enabled world0"
    by (simp add: register_server_enabled_def world0_def)
  have b: "''lets-encrypt.registered'' \<notin> flags (snd (register_server env_fail world0))"
    by (simp add: world0_first_cycle) (simp add: world0_def)
  from pending_requests_are_kept [of env_fail world0] a b show ?thesis by blast
qed

text \<open>
  Claim C10, as stated, fails: a request without the \<^verbatim>\<open>'contact-email'\<close> key, one
  of whose names already has a certificate directory, is skipped before the key is read,
  and \<^verbatim>\<open>create_certificates\<close> returns true.
\<close>

theorem missing_email_key_not_always_raised:
  "contact_email request_no_email = None
   \<and> create_certificates env_fail [request_no_email] world_issued = (Inr True, world_issued)"
  by (simp add: create_certificates_def request_no_email_def isdir_def live_path_def
      world_issued_def)

text \<open>
  Claim C10, amended. Let the requests before a request have gone through. If the request
  has no \<^verbatim>\<open>'fqdn'\<close> key, \<^verbatim>\<open>create_certificates\<close> raises \<^verbatim>\<open>KeyError\<close> for it. If it has
  the key, has no \<^verbatim>\<open>'contact-email'\<close> key and none of its names has a certificate
  directory, \<^verbatim>\<open>create_certificates\<close> raises \<^verbatim>\<open>KeyError\<close> before any program is run for
  it. If one of its names has a certificate directory, the request is skipped and the
  missing \<^verbatim>\<open>'contact-email'\<close> key goes unnoticed. An exception raised by
  \<^verbatim>\<open>create_certificates\<close> leaves \<^verbatim>\<open>register_server\<close> uncaught.
\<close>

theorem missing_key_raises_when_read:
  assumes "create_certificates e rs1 w = (Inr True, w1)"
  shows "(fqdn r1 = None \<longrightarrow>
            create_certificates e (rs1 @ r1 # rs2) w = (Inl (KeyError ''fqdn''), w1))
       \<and> (fqdn r2 = Some fs2 \<and> contact_email r2 = None
            \<and> \<not> (\<exists>f\<in>set fs2. isdir (live_path f) w1) \<longrightarrow>
            fst (create_certificates e (rs1 @ r2 # rs2) w) = Inl (KeyError ''contact-email'')
            \<and> quiet w1 (snd (create_certificates e (rs1 @ r2 # rs2) w)))
       \<and> (fqdn r3 = Some fs3 \<and> contact_email r3 = None
            \<and> (\<exists>f\<in>set fs3. isdir (live_path f) w1) \<longrightarrow>
            create_certificates e (rs1 @ r3 # rs2) w
              = create_certificates_loop e (bind_last (fqdn_after None rs1) fs3) rs2 w1)
       \<and> (fst (opened_ports e w0) = Inr ps
            \<and> (''80/tcp'' \<in> set ps \<or> ''443/tcp'' \<in> set ps)
            \<and> fst (create_certificates e (gather_requests w0) (snd (opened_ports e w0))) = Inl x \<longrightarrow>
            fst (register_server e w0) = Inl x)"
proof -
  have pre: "create_certificates_loop e None rs1 w = (Inr True, w1)"
    using assms by (simp add: create_certificates_def)
  have a: "create_certificates e (rs1 @ r1 # rs2) w = (Inl (KeyError ''fqdn''), w1)"
    if "fqdn r1 = None"
    using that by (simp add: create_certificates_def loop_after_prefix [OF pre])
  have b: "fst (create_certificates e (rs1 @ r2 # rs2) w) = Inl (KeyError ''contact-email'')
            \<and> quiet w1 (snd (create_certificates e (rs1 @ r2 # rs2) w))"
    if "fqdn r2 = Some fs2" and "contact_email r2 = None"
      and "\<not> (\<exists>f\<in>set fs2. isdir (live_path f) w1)"
    using that
    by (simp add: create_certificates_def loop_after_prefix [OF pre] any_isdir
        issue_request_quiet_no_email stop_clean)
  have c: "create_certificates e (rs1 @ r3 # rs2) w
              = create_certificates_loop e (bind_last (fqdn_after None rs1) fs3) rs2 w1"
    if "fqdn r3 = Some fs3" and "\<exists>f\<in>set fs3. isdir (live_path f) w1"
    using that
    by (simp add: create_certificates_def loop_after_prefix [OF pre] any_isdir)
  have d: "fst (register_server e w0) = Inl x"
    if "fst (opened_ports e w0) = Inr ps" and "''80/tcp'' \<in> set ps \<or> ''443/tcp'' \<in> set ps"
      and "fst (create_certificates e (gather_requests w0) (snd (opened_ports e w0))) = Inl x"
    using that by (rule register_server_propagates)
  from a b c d show ?thesis by blast
qed

theorem missing_key_raises_when_read_witness:
  "create_certificates env_fail [] world_issued = (Inr True, world_issued)
   \<and> fqdn request_no_fqdn = None
   \<and> create_certificates env_fail ([] @ request_no_fqdn # [request0]) world_issued
       = (Inl (KeyError ''fqdn''), world_issued)
   \<and> fqdn request_y_no_email = Some [''y.example.com'']
   \<and> contact_email request_y_no_email = None
   \<and> \<not> (\<exists>f\<in>set [''y.example.com'']. isdir (live_path f) world_issued)
   \<and> fst (create_certificates env_fail ([] @ request_y_no_email # [request0]) world_issued)
       = Inl (KeyError ''contact-email'')
   \<and> quiet world_issued
        (snd (create_certificates env_fail ([] @ request_y_no_email # [request0]) world_issued))
   \<and> fqdn request_no_email = Some [''x.example.com'']
   \<and> contact_email request_no_email = None
   \<and> (\<exists>f\<in>set [''x.example.com'']. isdir (live_path f) world_issued)
   \<and> create_certificates env_fail ([] @ request_no_email # [request0]) world_issued
       = create_certificates_loop env_fail
           (bind_last (fqdn_after None []) [''x.example.com'']) [request0] world_issued
   \<and> fst (opened_ports env_fail world_bad) = Inr [''80/tcp'', ''443/tcp'']
   \<and> (''80/tcp'' \<in> set [''80/tcp'', ''443/tcp''] \<or> ''443/tcp'' \<in> set [''80/tcp'', ''443/tcp''])
   \<and> fst (create_certificates env_fail (gather_requests world_bad)
             (snd (opened_ports env_fail world_bad))) = Inl (KeyError ''fqdn'')
   \<and> fst (register_server env_fail world_bad) = Inl (KeyError ''fqdn'')"
proof -
  have h0: "create_certificates env_fail [] world_issued = (Inr True, world_issued)"
    by (simp add: create_certificates_def)
  have h1: "fqdn request_no_fqdn = None" by (simp add: request_no_fqdn_def)
  have h2: "fqdn request_y_no_email = Some [''y.example.com'']"
    and h3: "contact_email request_y_no_email = None"
    by (simp_all add: request_y_no_email_def)
  have h4: "\<not> (\<exists>f\<in>set [''y.example.com'']. isdir (live_path f) world_issued)"
    by (simp add: isdir_def live_path_def world_issued_def)
  have h5: "fqdn request_no_email = Some [''x.example.com'']"
    and h6: "contact_email request_no_email = None"
    by (simp_all add: request_no_email_def)
  have h7: "\<exists>f\<in>set [''x.example.com'']. isdir (live_path f) world_issued"
    by (simp add: isdir_def live_path_def world_issued_def)
  have h8: "fst (opened_ports env_fail world_bad) = Inr [''80/tcp'', ''443/tcp'']"
    by (simp add: opened_ports_def check_output_def split_ws_def is_space_def env_fail_def)
  have h9: "''80/tcp'' \<in> set [''80/tcp'', ''443/tcp''] \<or> ''443/tcp'' \<in> set [''80/tcp'', ''443/tcp'']"
    by simp
  have h10: "fst (create_certificates env_fail (gather_requests world_bad)
             (snd (opened_ports env_fail world_bad))) = Inl (KeyError ''fqdn'')"
    by (simp add: create_certificates_def gather_requests_def config_get_def world_bad_def
        world0_def request_no_fqdn_def)
  note main = missing_key_raises_when_read [OF h0, of request_no_fqdn "[request0]"
      request_y_no_email "[''y.example.com'']" request_no_email "[''x.example.com'']"
      world_bad "[''80/tcp'', ''443/tcp'']" "KeyError ''fqdn''"]
  from main h1 have c1: "create_certificates env_fail ([] @ request_no_fqdn # [request0]) world_issued
       = (Inl (KeyError ''fqdn''), world_issued)"
    by blast
  from main h2 h3 h4 have c2: "fst (create_certificates env_fail ([] @ request_y_no_email # [request0]) world_issued)
       = Inl (KeyError ''contact-email'')
     \<and> quiet world_issued
        (snd (create_certificates env_fail ([] @ request_y_no_email # [request0]) world_issued))"
    by blast
  from main h5 h6 h7 have c3: "create_certificates env_fail ([] @ request_no_email # [request0]) world_issued
       = create_certificates_loop env_fail
           (bind_last (fqdn_after None []) [''x.example.com'']) [request0] world_issued"
    by blast
  from main h8 h9 h10 have c4: "fst (register_server env_fail world_bad) = Inl (KeyError ''fqdn'')"
    by blast
  from h0 h1 h2 h3 h4 h5 h6 h7 h8 h9 h10 c1 c2 c3 c4 show ?thesis by blast
qed

subsection \<open>Renewal\<close>

lemma str_contains_sublist: "str_contains needle hay = sublist needle hay"
proof (induction hay)
  case Nil
  show ?case by simp
next
  case (Cons c cs)
  have "prefix needle (c # cs) = (take (length needle) (c # cs) = needle)"
  proof
    assume "prefix needle (c # cs)"
    then obtain zs where "c # cs = needle @ zs" by (auto simp: prefix_def)
    then show "take (length needle) (c # cs) = needle" by simp
  next
    assume h: "take (length needle) (c # cs) = needle"
    have "prefix (take (length needle) (c # cs)) (c # cs)" by (rule take_is_prefix)
    then show "prefix needle (c # cs)" unfolding h .
  qed
  with Cons show ?case by (simp add: sublist_Cons_right)
qed

lemma no_renew_needed_snd:
  "snd (no_renew_needed e w) = snd (check_output e renew_argv False w)"
  by (simp add: no_renew_needed_def split_beta split: sum.splits exn.splits)

lemma no_renew_needed_fst:
  "fst (no_renew_needed e w)
     = (case fst (run e renew_argv False w) of
          Exited0 out \<Rightarrow> Inr (str_contains ''No renewals were attempted.'' out)
        | ExitedNonZero out \<Rightarrow> Inr (str_contains ''No renewals were attempted.'' out)
        | NotStarted msg \<Rightarrow> Inl (OSError msg))"
  by (simp add: no_renew_needed_def split_beta check_output_fst
      split: sum.splits exn.splits proc_result.splits)

lemma renew_try_flags:
  "flags (snd (renew_try e f w)) = flags w
   \<or> flags (snd (renew_try e f w)) = insert ''lets-encrypt.renewed'' (flags w)"
  by (simp add: renew_try_def split_beta check_output_frame prims
      split: sum.splits exn.splits)

lemma renew_window_flags:
  "flags (snd (renew_window e w)) = flags w
   \<or> flags (snd (renew_window e w)) = insert ''lets-encrypt.renewed'' (flags w)"
proof -
  define w0 where "w0 = print ''Renewing certificate...'' w"
  define wp where "wp = open_port 443 (open_port 80 (snd (stop_running_web_service w0)))"
  define w2 where "w2 = snd (renew_try e (config_get w0 ''fqdn'') wp)"
  have eq: "snd (renew_window e w)
              = (if fst (stop_running_web_service w0) then start_web_service w2 else w2)"
    by (simp add: renew_window_def Let_def split_beta w0_def w2_def wp_def)
  have fp: "flags wp = flags w"
    by (simp add: wp_def open_port_def emit_def stop_store w0_def print_def)
  have "flags w2 = flags wp \<or> flags w2 = insert ''lets-encrypt.renewed'' (flags wp)"
    unfolding w2_def by (rule renew_try_flags)
  then show ?thesis
    unfolding eq fp by (simp add: start_store)
qed

lemma renew_cert_snd:
  "snd (renew_cert e w)
     = (let w1 = snd (no_renew_needed e (remove_state ''lets-encrypt.renew.requested'' w))
        in if fst (no_renew_needed e (remove_state ''lets-encrypt.renew.requested'' w)) = Inr False
           then snd (renew_window e w1) else w1)"
  by (simp add: renew_cert_def split_beta Let_def split: sum.splits bool.splits)

lemma renew_cert_flags:
  "flags (snd (renew_cert e w)) = flags w - {''lets-encrypt.renew.requested''}
   \<or> flags (snd (renew_cert e w))
       = insert ''lets-encrypt.renewed'' (flags w - {''lets-encrypt.renew.requested''})"
proof -
  define w1 where "w1 = snd (no_renew_needed e (remove_state ''lets-encrypt.renew.requested'' w))"
  have f1: "flags w1 = flags w - {''lets-encrypt.renew.requested''}"
    by (simp add: w1_def no_renew_needed_snd check_output_frame remove_state_def emit_def)
  have "flags (snd (renew_window e w1)) = flags w1
        \<or> flags (snd (renew_window e w1)) = insert ''lets-encrypt.renewed'' (flags w1)"
    by (rule renew_window_flags)
  then have d: "flags (snd (renew_window e w1)) = flags w - {''lets-encrypt.renew.requested''}
        \<or> flags (snd (renew_window e w1))
            = insert ''lets-encrypt.renewed'' (flags w - {''lets-encrypt.renew.requested''})"
    unfolding f1 .
  have eq: "snd (renew_cert e w)
      = (if fst (no_renew_needed e (remove_state ''lets-encrypt.renew.requested'' w)) = Inr False
         then snd (renew_window e w1) else w1)"
    unfolding renew_cert_snd Let_def w1_def [symmetric] ..
  show ?thesis
  proof (cases "fst (no_renew_needed e (remove_state ''lets-encrypt.renew.requested'' w)) = Inr False")
    case True
    with d show ?thesis unfolding eq by simp
  next
    case False
    with f1 show ?thesis unfolding eq by simp
  qed
qed

lemma renew_cert_first_events:
  "take 2 (new_events w (snd (renew_cert e w)))
     = [RemoveState ''lets-encrypt.renew.requested'',
        Run renew_argv False
          (fst (run e renew_argv False (remove_state ''lets-encrypt.renew.requested'' w)))]"
proof -
  define w0 where "w0 = remove_state ''lets-encrypt.renew.requested'' w"
  define w1 where "w1 = snd (no_renew_needed e w0)"
  define w' where "w' = snd (renew_cert e w)"
  have t1: "trace w1 = trace w @ [RemoveState ''lets-encrypt.renew.requested'',
              Run renew_argv False (fst (run e renew_argv False w0))]"
    by (simp add: w1_def no_renew_needed_snd check_output_frame w0_def remove_state_def emit_def)
  have g: "grows w1 w'"
    unfolding w'_def renew_cert_snd Let_def w0_def [symmetric] w1_def [symmetric]
    by (simp add: grows_refl renew_window_service)
  have gw: "grows w w1"
    by (simp add: grows_def t1)
  have n1: "new_events w w1 = [RemoveState ''lets-encrypt.renew.requested'',
              Run renew_argv False (fst (run e renew_argv False w0))]"
    by (simp add: new_events_def t1)
  have "new_events w w' = new_events w w1 @ new_events w1 w'"
    using gw g by (rule new_events_append)
  then show ?thesis
    unfolding n1 w'_def w0_def by simp
qed

text \<open>
  Claim C6. \<^verbatim>\<open>renew_cert\<close> removes the renewal-requested flag before anything else: the
  first two events it adds to the trace are the removal of the flag and then the run of
  the due-check, which already sees a world without the flag. Whatever the due-check and
  the renewal do afterwards, also when the handler ends with an exception, the flag is
  not set when the handler ends, and the handler is not enabled again.
\<close>

theorem renew_request_cleared_first:
  "take 2 (new_events w (snd (renew_cert e w)))
     = [RemoveState ''lets-encrypt.renew.requested'',
        Run renew_argv False
          (fst (run e renew_argv False (remove_state ''lets-encrypt.renew.requested'' w)))]
   \<and> ''lets-encrypt.renew.requested'' \<notin> flags (remove_state ''lets-encrypt.renew.requested'' w)
   \<and> ''lets-encrypt.renew.requested'' \<notin> flags (snd (renew_cert e w))
   \<and> \<not> renew_cert_enabled (snd (renew_cert e w))"
proof -
  have a: "''lets-encrypt.renew.requested'' \<notin> flags (snd (renew_cert e w))"
  proof -
    have "''lets-encrypt.renew.requested''
            \<notin> insert ''lets-encrypt.renewed'' (flags w - {''lets-encrypt.renew.requested''})"
      by simp
    with renew_cert_flags [of e w] show ?thesis by force
  qed
  then have b: "\<not> renew_cert_enabled (snd (renew_cert e w))"
    by (simp add: renew_cert_enabled_def)
  have c: "''lets-encrypt.renew.requested'' \<notin> flags (remove_state ''lets-encrypt.renew.requested'' w)"
    by (simp add: remove_state_def emit_def)
  from renew_cert_first_events a b c show ?thesis by blast
qed

lemma renew_try_first_event:
  "take 1 (new_events w (snd (renew_try e f w)))
     = [Run renew_argv True (fst (run e renew_argv True w))]"
  by (simp add: renew_try_def split_beta check_output_frame prims new_events_def
      split: sum.splits exn.splits)

text \<open>
  Claim C9. The due-check \<^verbatim>\<open>no_renew_needed\<close> runs one program, the renewal client with
  the arguments \<^verbatim>\<open>renew --agree-tos\<close>, which are the arguments of the renewal itself; it
  stops no service, and what the client did persists. A non-zero exit status is not an
  error: for either exit status the result is whether the marker occurs in the captured
  output. In \<^verbatim>\<open>renew_cert\<close> the due-check is the first thing after the removal of the
  flag, so the run state of the services is the one the handler found.
\<close>

theorem due_check_runs_renewal_client:
  "new_events w (snd (no_renew_needed e w))
     = [Run [''letsencrypt'', ''renew'', ''--agree-tos''] False
          (fst (run e [''letsencrypt'', ''renew'', ''--agree-tos''] False w))]
   \<and> take 1 (new_events w (snd (renew_try e f w)))
     = [Run [''letsencrypt'', ''renew'', ''--agree-tos''] True
          (fst (run e [''letsencrypt'', ''renew'', ''--agree-tos''] True w))]
   \<and> running (snd (no_renew_needed e w)) = running w
   \<and> dirs (snd (no_renew_needed e w))
       = dirs w \<union> snd (run e [''letsencrypt'', ''renew'', ''--agree-tos''] False w)
   \<and> fst (no_renew_needed e w)
       = (case fst (run e [''letsencrypt'', ''renew'', ''--agree-tos''] False w) of
            Exited0 out \<Rightarrow> Inr (sublist ''No renewals were attempted.'' out)
          | ExitedNonZero out \<Rightarrow> Inr (sublist ''No renewals were attempted.'' out)
          | NotStarted msg \<Rightarrow> Inl (OSError msg))
   \<and> take 2 (new_events w (snd (renew_cert e w)))
       = [RemoveState ''lets-encrypt.renew.requested'',
          Run [''letsencrypt'', ''renew'', ''--agree-tos''] False
            (fst (run e [''letsencrypt'', ''renew'', ''--agree-tos''] False
                   (remove_state ''lets-encrypt.renew.requested'' w)))]
   \<and> running (remove_state ''lets-encrypt.renew.requested'' w) = running w"
proof -
  have a: "new_events w (snd (no_renew_needed e w))
     = [Run renew_argv False (fst (run e renew_argv False w))]"
    by (simp add: no_renew_needed_snd check_output_frame new_events_def)
  have b: "running (snd (no_renew_needed e w)) = running w"
    and c: "dirs (snd (no_renew_needed e w)) = dirs w \<union> snd (run e renew_argv False w)"
    by (simp_all add: no_renew_needed_snd check_output_frame)
  have d: "fst (no_renew_needed e w)
       = (case fst (run e renew_argv False w) of
            Exited0 out \<Rightarrow> Inr (sublist ''No renewals were attempted.'' out)
          | ExitedNonZero out \<Rightarrow> Inr (sublist ''No renewals were attempted.'' out)
          | NotStarted msg \<Rightarrow> Inl (OSError msg))"
    unfolding no_renew_needed_fst str_contains_sublist ..
  have g: "running (remove_state ''lets-encrypt.renew.requested'' w) = running w"
    by (simp add: remove_state_def emit_def)
  from a renew_try_first_event b c d renew_cert_first_events g show ?thesis by blast
qed

subsection \<open>The registered flag\<close>

lemma install_keeps_registered:
  "(''lets-encrypt.registered'' \<in> flags (check_version_and_install w))
     = (''lets-encrypt.registered'' \<in> flags w)"
  by (auto simp: check_version_and_install_def apt_install_queued_def apt_queue_install_def prims)

lemma config_changed_flags:
  "flags (config_changed w)
     = (if (config_changed_key w ''fqdn'' \<and> truthy (config_previous w ''fqdn''))
           \<or> truthy (config_get w ''fqdn'')
        then flags w - {''lets-encrypt.registered''} else flags w)"
  by (simp add: config_changed_def remove_state_def emit_def)

lemma changed_from_set_value:
  assumes "prev_config w = Some p" and "truthy (p ''fqdn'')" and "config w ''fqdn'' \<noteq> p ''fqdn''"
  shows "config_changed_key w ''fqdn'' \<and> truthy (config_previous w ''fqdn'')"
  using assms by (simp add: config_changed_key_def config_previous_def config_get_def)

lemma renew_keeps_registered:
  "(''lets-encrypt.registered'' \<in> flags (snd (renew_cert e w)))
     = (''lets-encrypt.registered'' \<in> flags w)"
proof -
  have "(''lets-encrypt.registered'' \<in> flags w - {''lets-encrypt.renew.requested''})
          = (''lets-encrypt.registered'' \<in> flags w)"
    and "(''lets-encrypt.registered''
            \<in> insert ''lets-encrypt.renewed'' (flags w - {''lets-encrypt.renew.requested''}))
          = (''lets-encrypt.registered'' \<in> flags w)"
    by simp_all
  with renew_cert_flags [of e w] show ?thesis by force
qed

text \<open>
  Claim C4. The registered flag is only ever set by \<^verbatim>\<open>register_server\<close>, and only after
  \<^verbatim>\<open>create_certificates\<close> has returned true for the gathered requests; the other handlers
  never set it. \<^verbatim>\<open>config_changed\<close> removes it when the \<^verbatim>\<open>fqdn\<close> option differs from a
  previous non-empty value, and when the option has a non-empty value. \<^verbatim>\<open>renew_cert\<close>
  leaves it as it is, whatever the renewal does.
\<close>

theorem registered_flag_lifecycle:
  "(''lets-encrypt.registered'' \<in> flags (snd (register_server e w))
      \<and> ''lets-encrypt.registered'' \<notin> flags w \<longrightarrow>
      fst (create_certificates e (gather_requests w) (snd (opened_ports e w))) = Inr True)
   \<and> (''lets-encrypt.registered'' \<in> flags (config_changed wc) \<longrightarrow>
        ''lets-encrypt.registered'' \<in> flags wc)
   \<and> (''lets-encrypt.registered'' \<in> flags (check_version_and_install wi) \<longrightarrow>
        ''lets-encrypt.registered'' \<in> flags wi)
   \<and> (prev_config wa = Some p \<and> truthy (p ''fqdn'') \<and> config wa ''fqdn'' \<noteq> p ''fqdn'' \<longrightarrow>
        ''lets-encrypt.registered'' \<notin> flags (config_changed wa))
   \<and> (truthy (config wn ''fqdn'') \<longrightarrow>
        ''lets-encrypt.registered'' \<notin> flags (config_changed wn))
   \<and> (''lets-encrypt.registered'' \<in> flags (snd (renew_cert e wr)))
       = (''lets-encrypt.registered'' \<in> flags wr)"
proof -
  have a: "fst (create_certificates e (gather_requests w) (snd (opened_ports e w))) = Inr True"
    if "''lets-encrypt.registered'' \<in> flags (snd (register_server e w))"
      and "''lets-encrypt.registered'' \<notin> flags w"
    using register_server_shape [of e w] that by auto
  have b: "''lets-encrypt.registered'' \<in> flags wc"
    if "''lets-encrypt.registered'' \<in> flags (config_changed wc)"
    using that by (simp add: config_changed_flags split: if_splits)
  have c: "''lets-encrypt.registered'' \<in> flags wi"
    if "''lets-encrypt.registered'' \<in> flags (check_version_and_install wi)"
    using that by (simp add: install_keeps_registered)
  have d: "''lets-encrypt.registered'' \<notin> flags (config_changed wa)"
    if "prev_config wa = Some p" and "truthy (p ''fqdn'')" and "config wa ''fqdn'' \<noteq> p ''fqdn''"
    using changed_from_set_value [OF that] by (simp add: config_changed_flags)
  have f: "''lets-encrypt.registered'' \<notin> flags (config_changed wn)"
    if "truthy (config wn ''fqdn'')"
    using that by (simp add: config_changed_flags config_get_def)
  from a b c d f renew_keeps_registered [of e wr] show ?thesis by blast
qed

theorem registered_flag_lifecycle_witness:
  "''lets-encrypt.registered'' \<in> flags (snd (register_server env_mixed world0))
   \<and> ''lets-encrypt.registered'' \<notin> flags world0
   \<and> fst (create_certificates env_mixed (gather_requests world0)
            (snd (opened_ports env_mixed world0))) = Inr True
   \<and> ''lets-encrypt.registered''
        \<in> flags (config_changed (world0\<lparr>flags := {''lets-encrypt.registered''}\<rparr>))
   \<and> ''lets-encrypt.registered'' \<in> flags (world0\<lparr>flags := {''lets-encrypt.registered''}\<rparr>)
   \<and> ''lets-encrypt.registered'' \<in> flags (check_version_and_install world_registered)
   \<and> ''lets-encrypt.registered'' \<in> flags world_registered
   \<and> prev_config world_registered = Some [''fqdn'' \<mapsto> ''a.example.com'']
   \<and> truthy ([''fqdn'' \<mapsto> ''a.example.com''] ''fqdn'')
   \<and> config world_registered ''fqdn'' \<noteq> [''fqdn'' \<mapsto> ''a.example.com''] ''fqdn''
   \<and> ''lets-encrypt.registered'' \<notin> flags (config_changed world_registered)
   \<and> truthy (config world_registered ''fqdn'')"
proof -
  have h1: "''lets-encrypt.registered'' \<in> flags (snd (register_server env_mixed world0))"
    by (simp add: handler_defs model_defs example_defs configure_periodic_renew_def
        unconfigure_periodic_renew_def create_dhparam_def copyfile_def charm_dir_def strip_def)
  have h2: "''lets-encrypt.registered'' \<notin> flags world0"
    by (simp add: world0_def)
  have h3: "''lets-encrypt.registered''
        \<in> flags (config_changed (world0\<lparr>flags := {''lets-encrypt.registered''}\<rparr>))"
    by (simp add: config_changed_flags config_changed_key_def config_previous_def config_get_def
        world0_def)
  have h4: "''lets-encrypt.registered'' \<in> flags world_registered"
    by (simp add: world_registered_def)
  have h5: "''lets-encrypt.registered'' \<in> flags (check_version_and_install world_registered)"
    using h4 by (simp add: install_keeps_registered)
  have h6: "prev_config world_registered = Some [''fqdn'' \<mapsto> ''a.example.com'']"
    and h7: "truthy ([''fqdn'' \<mapsto> ''a.example.com''] ''fqdn'')"
    and h8: "config world_registered ''fqdn'' \<noteq> [''fqdn'' \<mapsto> ''a.example.com''] ''fqdn''"
    and h9: "truthy (config world_registered ''fqdn'')"
    by (simp_all add: world_registered_def)
  note main = registered_flag_lifecycle [where e = env_mixed and w = world0
      and wc = "world0\<lparr>flags := {''lets-encrypt.registered''}\<rparr>" and wi = world_registered
      and wa = world_registered and p = "[''fqdn'' \<mapsto> ''a.example.com'']"
      and wn = world_registered and wr = world0]
  from main h1 h2 have c1: "fst (create_certificates env_mixed (gather_requests world0)
            (snd (opened_ports env_mixed world0))) = Inr True"
    by blast
  from main h3 have c2: "''lets-encrypt.registered'' \<in> flags (world0\<lparr>flags := {''lets-encrypt.registered''}\<rparr>)"
    by blast
  from main h6 h7 h8 have c3: "''lets-encrypt.registered'' \<notin> flags (config_changed world_registered)"
    by blast
  from h1 h2 c1 h3 c2 h5 h4 h6 h7 h8 c3 h9 show ?thesis by blast
qed

subsection \<open>The renewal job\<close>















subsection \<open>Installation\<close>

text \<open>
  What \<^verbatim>\<open>check_version_and_install\<close> decides on: the order of the series name and
  \<^verbatim>\<open>'xenial'\<close> as strings.
\<close>

lemma install_decision:
  "series w < ''xenial'' \<Longrightarrow>
     status (check_version_and_install w) = Some (''blocked'', ''Unsupported series < Xenial'')
     \<and> ports (check_version_and_install w) = ports w
     \<and> apt_installed (check_version_and_install w) = apt_installed w
     \<and> flags (check_version_and_install w) = flags w"
  "''xenial'' \<le> series w \<Longrightarrow>
     {80, 443} \<subseteq> ports (check_version_and_install w)
     \<and> ''letsencrypt'' \<in> apt_installed (check_version_and_install w)
     \<and> ''apt.installed.letsencrypt'' \<in> flags (check_version_and_install w)
     \<and> status (check_version_and_install w) = status w"
  by (auto simp: check_version_and_install_def apt_install_queued_def apt_queue_install_def
      prims not_le)

text \<open>
  Claim C8: on first activation a platform that is not new enough for the client is
  blocked, with nothing installed and no port opened, and a platform that is new enough
  gets the client installed and ports 80 and 443 opened. The second half is not what the
  code does on every platform. Ubuntu 18.04, whose series name is
  \<^verbatim>\<open>bionic\<close>, is newer than Ubuntu 16.04 (\<^verbatim>\<open>xenial\<close>) and supports the client, but
  \<^verbatim>\<open>'bionic' >= 'xenial'\<close> is false for strings: the unit is blocked with the message
  "Unsupported series < Xenial", nothing is installed and no port is opened.
\<close>

theorem bionic_is_blocked:
  "series world_bionic = ''bionic''
   \<and> status (check_version_and_install world_bionic)
       = Some (''blocked'', ''Unsupported series < Xenial'')
   \<and> ports (check_version_and_install world_bionic) = {}
   \<and> apt_installed (check_version_and_install world_bionic) = {}
   \<and> ''apt.installed.letsencrypt'' \<notin> flags (check_version_and_install world_bionic)
   \<and> trace (check_version_and_install world_bionic)
       = [Log ''letsencrypt not supported on series >= bionic'',
          StatusSet ''blocked'' ''Unsupported series < Xenial'']"
  by (simp add: check_version_and_install_def prims world_bionic_def)

end
